(* ===== verification/Veil_Prelude.thy ===== *)
theory Veil_Prelude
  imports Main "HOL-Library.Word"
begin

text \<open>
  Shared vocabulary of the development: the \<open>named_theorems\<close> collections the component
  theories add to, fallible results (\<open>'e + 'a\<close>, \<open>Inl\<close> the error) with the two combinators that
  stand for Rust's \<open>?\<close> and \<open>map_err\<close>, and the facts on lists the components share
  (pairwise chunks, \<open>Vec::resize\<close>, \<open>Iterator::position\<close>, big-endian digits).
\<close>

type_synonym u8 = "8 word"

named_theorems result_simps \<open>unfolding of the fallible-result combinators\<close>
named_theorems codec \<open>round trips and lengths of the byte encodings\<close>
named_theorems store_inv \<open>each statement of the store keeps its invariant\<close>

subsection \<open>Fallible results\<close>

definition try_r :: "'e + 'a \<Rightarrow> ('a \<Rightarrow> 'e + 'b) \<Rightarrow> 'e + 'b" where
  "try_r r k = (case r of Inl e \<Rightarrow> Inl e | Inr x \<Rightarrow> k x)"

definition map_err :: "('e \<Rightarrow> 'f) \<Rightarrow> 'e + 'a \<Rightarrow> 'f + 'a" where
  "map_err f r = (case r of Inl e \<Rightarrow> Inl (f e) | Inr x \<Rightarrow> Inr x)"

definition ok_or :: "'e \<Rightarrow> 'a option \<Rightarrow> 'e + 'a" where
  "ok_or e m = (case m of None \<Rightarrow> Inl e | Some x \<Rightarrow> Inr x)"

lemma try_r_simps [simp, result_simps]:
  "try_r (Inl e) k = Inl e"
  "try_r (Inr x) k = k x"
  by (simp_all add: try_r_def)

lemma map_err_simps [simp, result_simps]:
  "map_err f (Inl e) = Inl (f e)"
  "map_err f (Inr x) = Inr x"
  by (simp_all add: map_err_def)

lemma ok_or_simps [simp, result_simps]:
  "ok_or e None = Inl e"
  "ok_or e (Some x) = Inr x"
  by (simp_all add: ok_or_def)

lemma try_r_Inr_iff: "try_r r k = Inr y \<longleftrightarrow> (\<exists>x. r = Inr x \<and> k x = Inr y)"
  by (cases r) auto

lemma try_r_Inl_iff: "try_r r k = Inl e \<longleftrightarrow> r = Inl e \<or> (\<exists>x. r = Inr x \<and> k x = Inl e)"
  by (cases r) auto

lemma map_err_Inr_iff: "map_err f r = Inr y \<longleftrightarrow> r = Inr y"
  by (cases r) auto

lemma map_err_Inl_iff: "map_err f r = Inl e \<longleftrightarrow> (\<exists>e'. r = Inl e' \<and> e = f e')"
  by (cases r) auto

lemma ok_or_Inr_iff: "ok_or e m = Inr x \<longleftrightarrow> m = Some x"
  by (cases m) auto

lemma ok_or_Inl_iff: "ok_or e m = Inl e' \<longleftrightarrow> m = None \<and> e' = e"
  by (cases m) auto

lemma case_prod_eq_iff: "(case p of (x, y) \<Rightarrow> f x y) = z \<longleftrightarrow> (\<exists>x y. p = (x, y) \<and> f x y = z)"
  by (cases p) auto

lemma try_r_pair_iff:
  "try_r r (\<lambda>(x, y). f x y) = Inr z \<longleftrightarrow> (\<exists>x y. r = Inr (x, y) \<and> f x y = Inr z)"
  by (cases r) auto

lemmas result_iffs = try_r_Inr_iff try_r_Inl_iff map_err_Inr_iff map_err_Inl_iff
  ok_or_Inr_iff ok_or_Inl_iff

text \<open>\<open>iter().map(f).collect::<Result<Vec<_>, _>>()\<close>: the first error wins.\<close>

fun collect_r :: "('a \<Rightarrow> 'e + 'b) \<Rightarrow> 'a list \<Rightarrow> 'e + 'b list" where
  "collect_r f [] = Inr []"
| "collect_r f (x # xs) = try_r (f x) (\<lambda>y. try_r (collect_r f xs) (\<lambda>ys. Inr (y # ys)))"

lemma collect_r_all: "(\<And>x. x \<in> set xs \<Longrightarrow> f x = Inr (g x)) \<Longrightarrow> collect_r f xs = Inr (map g xs)"
  by (induction xs) auto

text \<open>
  A call that returns an error value or panics. A panic is never handled by the callers, except
  where the program runs a closure on the blocking pool, which turns it into a join error.
\<close>

datatype 'e failure = Failed 'e | Panicked

definition or_panic :: "'a option \<Rightarrow> 'e failure + 'a" where
  "or_panic m = (case m of None \<Rightarrow> Inl Panicked | Some x \<Rightarrow> Inr x)"

lemma or_panic_simps [simp]:
  "or_panic None = Inl Panicked"
  "or_panic (Some x) = Inr x"
  by (simp_all add: or_panic_def)

fun map_failure :: "('e \<Rightarrow> 'f) \<Rightarrow> 'e failure \<Rightarrow> 'f failure" where
  "map_failure f (Failed e) = Failed (f e)"
| "map_failure f Panicked = Panicked"

subsection \<open>Lists\<close>

text \<open>\<open>Vec::resize\<close>: cut to the new length, or fill up with the given value.\<close>

definition vec_resize :: "nat \<Rightarrow> 'a \<Rightarrow> 'a list \<Rightarrow> 'a list" where
  "vec_resize n x xs = take n xs @ replicate (n - length xs) x"

lemma length_vec_resize [simp]: "length (vec_resize n x xs) = n"
  by (simp add: vec_resize_def)

lemma nth_vec_resize:
  "i < n \<Longrightarrow> vec_resize n x xs ! i = (if i < length xs then xs ! i else x)"
  by (auto simp: vec_resize_def nth_append)

text \<open>\<open>Iterator::position\<close>: the index of the first element that satisfies the predicate.\<close>

fun position :: "('a \<Rightarrow> bool) \<Rightarrow> 'a list \<Rightarrow> nat option" where
  "position p [] = None"
| "position p (x # xs) = (if p x then Some 0 else map_option Suc (position p xs))"

lemma position_None_iff: "position p xs = None \<longleftrightarrow> (\<forall>x \<in> set xs. \<not> p x)"
  by (induction xs) auto

lemma position_SomeD: "position p xs = Some i \<Longrightarrow> i < length xs \<and> p (xs ! i)"
  by (induction xs arbitrary: i) (auto split: if_splits)

lemma position_exists: "x \<in> set xs \<Longrightarrow> p x \<Longrightarrow> \<exists>i. position p xs = Some i"
  by (induction xs) auto

text \<open>Concatenations of pieces of fixed lengths determine the pieces.\<close>

lemma concat_fixed_inj:
  assumes "\<forall>x \<in> set xs. length x = w" "\<forall>y \<in> set ys. length y = w" "0 < w"
    and "concat xs = concat ys"
  shows "xs = ys"
  using assms(1,2,4)
proof (induction xs arbitrary: ys)
  case Nil
  from Nil.prems(2,3) assms(3) show ?case by (cases ys) auto
next
  case (Cons x xs)
  from Cons.prems(1,3) assms(3) obtain y zs where ys: "ys = y # zs" by (cases ys) auto
  with Cons.prems have "x = y" "concat xs = concat zs" by simp_all
  moreover have "xs = zs"
    using Cons.prems ys calculation(2) by (intro Cons.IH) simp_all
  ultimately show ?case using ys by simp
qed

end
