(* ===== verification/Postgres.thy ===== *)
theory Postgres
  imports Veil_Prelude
begin

text \<open>
  The database as the server's queries see it: the three tables of \<open>migrations/0001_init.sql\<close> with
  their keys, the statements the store issues, and programs that issue them one at a time. A
  program is data (\<open>prog\<close>): it returns, or sends a request and goes on with the reply. One
  request at a time is what the connection sees, so the same program can be run alone (\<open>run\<close>) or
  interleaved with others (theory \<open>Store_Concurrency\<close>). Every request may fail before or after it
  took effect; \<open>fault\<close> says which, and \<open>may_fault\<close> which of them need no failure of the database.
\<close>

subsection \<open>Tables\<close>

type_synonym int4 = "32 word"
type_synonym int8 = "64 word"

record leaf_row =
  row_issuer :: string
  row_position :: int4
  row_commitment :: string

definition row_key :: "leaf_row \<Rightarrow> string \<times> int4" where
  "row_key r = (row_issuer r, row_position r)"

text \<open>
  \<open>collation\<close> is the order of the database's \<open>TEXT\<close> columns, \<open>violation\<close> the text it reports for a
  violated constraint.
\<close>

record database =
  issuer_rows :: "(string \<times> string option) list"
  leaf_rows :: "leaf_row list"
  nullifier_rows :: "(string \<times> string) list"
  collation :: "string \<Rightarrow> string \<Rightarrow> bool"
  violation :: string

definition issuer_names :: "database \<Rightarrow> string list" where
  "issuer_names d = map fst (issuer_rows d)"

definition rows_of :: "string \<Rightarrow> leaf_row list \<Rightarrow> leaf_row list" where
  "rows_of i rows = filter (\<lambda>r. row_issuer r = i) rows"

subsection \<open>Statements\<close>

datatype sql =
    SelectOne
  | InsertIssuer string
  | CountLeaves string
  | SelectLeaves string
  | UpdateRoot string string
  | SelectIssuers
  | CountIssuers string
  | SelectRoot string
  | InsertNullifier string string

text \<open>The two statements issued inside a transaction.\<close>

datatype tx_sql =
    TxCountLeaves string
  | TxInsertLeaf string int4 string

datatype sql_result =
    Done
  | Number int8
  | Rows "string list"
  | Row "string option option"

fun insert_by :: "('a \<Rightarrow> 'a \<Rightarrow> bool) \<Rightarrow> 'a \<Rightarrow> 'a list \<Rightarrow> 'a list" where
  "insert_by le x [] = [x]"
| "insert_by le x (y # ys) = (if le x y then x # y # ys else y # insert_by le x ys)"

fun order_by :: "('a \<Rightarrow> 'a \<Rightarrow> bool) \<Rightarrow> 'a list \<Rightarrow> 'a list" where
  "order_by le [] = []"
| "order_by le (x # xs) = insert_by le x (order_by le xs)"

definition position_le :: "leaf_row \<Rightarrow> leaf_row \<Rightarrow> bool" where
  "position_le r s \<longleftrightarrow> sint (row_position r) \<le> sint (row_position s)"

definition update_root :: "string \<Rightarrow> string \<Rightarrow> (string \<times> string option) list \<Rightarrow> (string \<times> string option) list" where
  "update_root name root = map (\<lambda>(n, r). (n, if n = name then Some root else r))"

text \<open>
  The texts that a statement carries. Postgres refuses a \<open>TEXT\<close> value with a NUL character, and the
  insertion of one that is too long for the index of its key, 2704 bytes with the header. Such a
  statement may be refused without any failure of the database, which \<open>may_fault\<close> below says; the
  bound here is below the index's, and a text above it may still be accepted.
\<close>

primrec sql_texts :: "sql \<Rightarrow> string list" where
  "sql_texts SelectOne = []"
| "sql_texts (InsertIssuer name) = [name]"
| "sql_texts (CountLeaves i) = [i]"
| "sql_texts (SelectLeaves i) = [i]"
| "sql_texts (UpdateRoot name root) = [name, root]"
| "sql_texts SelectIssuers = []"
| "sql_texts (CountIssuers name) = [name]"
| "sql_texts (SelectRoot name) = [name]"
| "sql_texts (InsertNullifier i n) = [i, n]"

primrec tx_sql_texts :: "tx_sql \<Rightarrow> string list" where
  "tx_sql_texts (TxCountLeaves i) = [i]"
| "tx_sql_texts (TxInsertLeaf i p h) = [i, h]"

definition INDEXED_TEXT :: nat where
  "INDEXED_TEXT = 2048"

definition acceptable_text :: "string \<Rightarrow> bool" where
  "acceptable_text t \<longleftrightarrow> length t \<le> INDEXED_TEXT \<and> list_all (\<lambda>c. c \<noteq> CHR 0x00) t"

text \<open>A violated constraint is \<open>None\<close>.\<close>

definition sql_eval :: "sql \<Rightarrow> database \<Rightarrow> (sql_result \<times> database) option" where
  "sql_eval s d =
     (case s of
        SelectOne \<Rightarrow> Some (Done, d)
      | InsertIssuer name \<Rightarrow>
          if name \<in> set (issuer_names d) then Some (Done, d)
          else Some (Done, d\<lparr> issuer_rows := issuer_rows d @ [(name, None)] \<rparr>)
      | CountLeaves i \<Rightarrow> Some (Number (of_nat (length (rows_of i (leaf_rows d)))), d)
      | SelectLeaves i \<Rightarrow>
          Some (Rows (map row_commitment (order_by position_le (rows_of i (leaf_rows d)))), d)
      | UpdateRoot name root \<Rightarrow>
          Some (Done, d\<lparr> issuer_rows := update_root name root (issuer_rows d) \<rparr>)
      | SelectIssuers \<Rightarrow> Some (Rows (order_by (collation d) (issuer_names d)), d)
      | CountIssuers name \<Rightarrow>
          Some (Number (of_nat (length (filter (\<lambda>n. n = name) (issuer_names d)))), d)
      | SelectRoot name \<Rightarrow> Some (Row (map_of (issuer_rows d) name), d)
      | InsertNullifier i n \<Rightarrow>
          if (i, n) \<in> set (nullifier_rows d) then Some (Done, d)
          else if i \<in> set (issuer_names d)
          then Some (Done, d\<lparr> nullifier_rows := nullifier_rows d @ [(i, n)] \<rparr>)
          else None)"

subsection \<open>Programs\<close>

text \<open>
  The points at which a handler waits: a statement on the pool, the steps of a transaction, and
  \<open>Blocking\<close>, a computation handed to the blocking pool, which the database does not see.
\<close>

datatype request =
    Pool sql
  | Begin
  | Tx tx_sql
  | Commit
  | Rollback
  | Blocking

datatype reply = Error string | Result sql_result

datatype 'a prog = Return 'a | Call request "reply \<Rightarrow> 'a prog"

primrec bind :: "'a prog \<Rightarrow> ('a \<Rightarrow> 'b prog) \<Rightarrow> 'b prog" where
  "bind (Return a) g = g a"
| "bind (Call rq k) g = Call rq (\<lambda>r. bind (k r) g)"

text \<open>\<open>spawn_blocking(..).await\<close>: the handler waits for a task on another thread that ends with \<open>a\<close>.\<close>

definition spawn_blocking :: "'a \<Rightarrow> 'a prog" where
  "spawn_blocking a = Call Blocking (\<lambda>_. Return a)"

text \<open>\<open>p.await?\<close>: the error ends the program.\<close>

definition bind_ok :: "('e + 'a) prog \<Rightarrow> ('a \<Rightarrow> ('e + 'b) prog) \<Rightarrow> ('e + 'b) prog" where
  "bind_ok p g = bind p (\<lambda>r. case r of Inl e \<Rightarrow> Return (Inl e) | Inr a \<Rightarrow> g a)"

text \<open>\<open>p.await.map_err(f)\<close>, also the \<open>From\<close> conversion that \<open>?\<close> applies.\<close>

definition prog_map_err :: "('e \<Rightarrow> 'f) \<Rightarrow> ('e + 'a) prog \<Rightarrow> ('f + 'a) prog" where
  "prog_map_err f p = bind p (\<lambda>r. Return (map_err f r))"

subsection \<open>Execution of a request\<close>

text \<open>
  What happens to a request on its way: it is served; it fails with the given error text before the
  database acted; it fails although the database acted (the reply is lost).
\<close>

datatype fault = Fine | Refused string | Lost string

primrec acts :: "fault \<Rightarrow> bool" where
  "acts Fine = True"
| "acts (Refused t) = False"
| "acts (Lost t) = True"

primrec answer :: "fault \<Rightarrow> reply \<Rightarrow> reply" where
  "answer Fine r = r"
| "answer (Refused t) r = Error t"
| "answer (Lost t) r = Error t"

text \<open>
  What can happen to a request: without failures it is served, or it carries a text that the database
  refuses; with failures anything.
\<close>

definition acceptable :: "request \<Rightarrow> bool" where
  "acceptable rq \<longleftrightarrow>
     (case rq of
        Pool s \<Rightarrow> list_all acceptable_text (sql_texts s)
      | Tx s \<Rightarrow> list_all acceptable_text (tx_sql_texts s)
      | _ \<Rightarrow> True)"

definition may_fault :: "bool \<Rightarrow> request \<Rightarrow> fault \<Rightarrow> bool" where
  "may_fault failures rq f \<longleftrightarrow> failures \<or> f = Fine \<or> \<not> acceptable rq \<and> (\<exists>t. f = Refused t)"

text \<open>The uncommitted rows of the open transaction; \<open>None\<close> without one.\<close>

type_synonym tx_state = "leaf_row list option"

definition tx_eval :: "tx_sql \<Rightarrow> leaf_row list \<Rightarrow> database \<Rightarrow> (sql_result \<times> leaf_row list) option" where
  "tx_eval s pending d =
     (case s of
        TxCountLeaves i \<Rightarrow> Some (Number (of_nat (length (rows_of i (leaf_rows d @ pending)))), pending)
      | TxInsertLeaf i p h \<Rightarrow>
          let row = \<lparr> row_issuer = i, row_position = p, row_commitment = h \<rparr> in
          if i \<in> set (issuer_names d) \<and> row_key row \<notin> set (map row_key (leaf_rows d @ pending))
          then Some (Done, pending @ [row])
          else None)"

definition exec :: "fault \<Rightarrow> request \<Rightarrow> tx_state \<Rightarrow> database \<Rightarrow> reply \<times> tx_state \<times> database" where
  "exec f rq tx d =
     (case rq of
        Pool s \<Rightarrow>
          (case sql_eval s d of
             None \<Rightarrow> (answer f (Error (violation d)), tx, d)
           | Some (res, d') \<Rightarrow> (answer f (Result res), tx, if acts f then d' else d))
      | Begin \<Rightarrow> (answer f (Result Done), if f = Fine then Some [] else None, d)
      | Tx s \<Rightarrow>
          (case Option.bind tx (\<lambda>pending. tx_eval s pending d) of
             None \<Rightarrow> (answer f (Error (violation d)), None, d)
           | Some (res, pending') \<Rightarrow>
               (answer f (Result res), if f = Fine then Some pending' else None, d))
      | Commit \<Rightarrow>
          (case tx of
             None \<Rightarrow> (answer f (Error (violation d)), None, d)
           | Some pending \<Rightarrow>
               (answer f (Result Done), None,
                if acts f then d\<lparr> leaf_rows := leaf_rows d @ pending \<rparr> else d))
      | Rollback \<Rightarrow> (Result Done, None, d)
      | Blocking \<Rightarrow> (Result Done, tx, d))"

subsection \<open>A program alone\<close>

text \<open>
  The rest of the fault script decides the next requests; after its end every request is served.
\<close>

record conn =
  tx :: tx_state
  faults :: "fault list"
  db :: database

definition next_fault :: "fault list \<Rightarrow> fault" where
  "next_fault fs = (case fs of [] \<Rightarrow> Fine | f # _ \<Rightarrow> f)"

definition conn_exec :: "request \<Rightarrow> conn \<Rightarrow> reply \<times> conn" where
  "conn_exec rq c =
     (case exec (next_fault (faults c)) rq (tx c) (db c) of
        (r, tx', d') \<Rightarrow> (r, \<lparr> tx = tx', faults = tl (faults c), db = d' \<rparr>))"

primrec run_on :: "(request \<Rightarrow> 's \<Rightarrow> reply \<times> 's) \<Rightarrow> 'a prog \<Rightarrow> 's \<Rightarrow> 'a \<times> 's" where
  "run_on ex (Return a) = (\<lambda>s. (a, s))"
| "run_on ex (Call rq k) = (\<lambda>s. case ex rq s of (r, s') \<Rightarrow> run_on ex (k r) s')"

definition run :: "'a prog \<Rightarrow> conn \<Rightarrow> 'a \<times> conn" where
  "run = run_on conn_exec"

text \<open>A connection of the pool: no open transaction.\<close>

definition connected :: "fault list \<Rightarrow> database \<Rightarrow> conn" where
  "connected fs d = \<lparr> tx = None, faults = fs, db = d \<rparr>"

subsection \<open>Running composed programs\<close>

lemma run_bind: "run_on ex (bind p g) s = (case run_on ex p s of (a, s') \<Rightarrow> run_on ex (g a) s')"
  by (induction p arbitrary: s) (simp_all split: prod.splits)

lemma run_bind_ok:
  "run_on ex (bind_ok p g) s =
     (case run_on ex p s of (Inl e, s') \<Rightarrow> (Inl e, s') | (Inr a, s') \<Rightarrow> run_on ex (g a) s')"
  by (simp add: bind_ok_def run_bind split: prod.splits sum.splits)

lemma run_map_err:
  "run_on ex (prog_map_err f p) s = (case run_on ex p s of (r, s') \<Rightarrow> (map_err f r, s'))"
  by (simp add: prog_map_err_def run_bind split: prod.splits)

lemmas run_simps = run_bind run_bind_ok run_map_err

lemma bind_assoc: "bind (bind p f) g = bind p (\<lambda>a. bind (f a) g)"
  by (induction p) (simp_all add: fun_eq_iff)

lemma bind_Return: "bind p Return = p"
  by (induction p) (simp_all add: fun_eq_iff)

subsection \<open>Sorting\<close>

lemma set_insert_by [simp]: "set (insert_by le x xs) = insert x (set xs)"
  by (induction xs) auto

lemma set_order_by [simp]: "set (order_by le xs) = set xs"
  by (induction xs) auto

lemma length_insert_by [simp]: "length (insert_by le x xs) = Suc (length xs)"
  by (induction xs) auto

lemma length_order_by [simp]: "length (order_by le xs) = length xs"
  by (induction xs) auto

lemma sorted_insert_by:
  assumes "transp le" "\<And>x y. le x y \<or> le y x"
  shows "sorted_wrt le xs \<Longrightarrow> sorted_wrt le (insert_by le x xs)"
proof (induction xs)
  case (Cons y ys)
  then show ?case using assms by (auto dest: transpD)
qed simp

lemma sorted_order_by:
  assumes "transp le" "\<And>x y. le x y \<or> le y x"
  shows "sorted_wrt le (order_by le xs)"
  by (induction xs) (simp_all add: sorted_insert_by [OF assms])

lemma distinct_insert_by: "distinct (insert_by le x xs) \<longleftrightarrow> x \<notin> set xs \<and> distinct xs"
  by (induction xs) auto

lemma distinct_order_by [simp]: "distinct (order_by le xs) \<longleftrightarrow> distinct xs"
  by (induction xs) (auto simp: distinct_insert_by)

text \<open>A sorted table is read in its order.\<close>

lemma order_by_sorted: "sorted_wrt le xs \<Longrightarrow> order_by le xs = xs"
proof (induction xs)
  case (Cons x xs)
  then show ?case by (cases xs) simp_all
qed simp

end
