(* ===== verification/Bn254_Prime.thy ===== *)
theory Bn254_Prime
  imports Veil_Prelude
begin

text \<open>
  The BN254 scalar-field order is prime. The circuit's boolean constraint, the permutation
  property of MiMC and the soundness of the membership circuit rest on it, so it is proved here
  from first principles: Fermat's little theorem by the binomial formula, a Pocklington
  criterion, and an evaluated certificate for every prime in the certificate tree. Modular powers
  are computed by square-and-multiply with Barrett reduction (\<open>redc\<close>); whatever
  quotient estimate the reduction takes, the result stays congruent, so only the final values
  matter.
\<close>

subsection \<open>Primes and Euclid's lemma\<close>

definition is_prime :: "nat \<Rightarrow> bool" where
  "is_prime p \<longleftrightarrow> 1 < p \<and> (\<forall>d. d dvd p \<longrightarrow> d = 1 \<or> d = p)"

lemma is_prime_gt1: "is_prime p \<Longrightarrow> 1 < p"
  by (simp add: is_prime_def)

lemma is_prime_coprime: "is_prime p \<Longrightarrow> \<not> p dvd a \<Longrightarrow> coprime p a"
  by (metis coprime_iff_gcd_eq_1 gcd_dvd1 gcd_dvd2 is_prime_def)

lemma is_prime_dvd_mult: "is_prime p \<Longrightarrow> p dvd a * b \<Longrightarrow> p dvd a \<or> p dvd b"
  using is_prime_coprime coprime_dvd_mult_right_iff by blast

lemma is_prime_int_dvd_mult:
  assumes "is_prime p" and "int p dvd a * b"
  shows "int p dvd a \<or> int p dvd b"
proof -
  have "p dvd nat \<bar>a\<bar> * nat \<bar>b\<bar>"
    using assms(2) by (metis abs_mult int_dvd_int_iff abs_ge_zero dvd_abs_iff int_nat_eq nat_abs_mult_distrib of_nat_mult)
  then have "p dvd nat \<bar>a\<bar> \<or> p dvd nat \<bar>b\<bar>"
    by (rule is_prime_dvd_mult [OF assms(1)])
  then show ?thesis by (simp add: int_dvd_int_iff [symmetric])
qed

lemma prime_factor_exists: "1 < n \<Longrightarrow> \<exists>p. is_prime p \<and> p dvd n"
proof (induction n rule: less_induct)
  case (less n)
  show ?case
  proof (cases "is_prime n")
    case True
    then have "is_prime n \<and> n dvd n" by simp
    then show ?thesis by (rule exI)
  next
    case False
    with less.prems obtain d where d: "d dvd n" "d \<noteq> 1" "d \<noteq> n"
      by (auto simp: is_prime_def)
    with less.prems have "1 < d" "d < n"
      by (auto dest: dvd_imp_le)
    then obtain p where "is_prime p" "p dvd d" using less.IH by blast
    with d(1) show ?thesis using dvd_trans by blast
  qed
qed

lemma composite_small_factor:
  assumes "1 < n" and "\<not> is_prime n"
  shows "\<exists>p. is_prime p \<and> p dvd n \<and> p * p \<le> n"
proof -
  from assms obtain d where d: "d dvd n" "d \<noteq> 1" "d \<noteq> n"
    by (auto simp: is_prime_def)
  then obtain e where e: "n = d * e" by blast
  have ge: "1 < d" "1 < e"
    using d e assms(1) by (auto simp: nat_neq_iff)
  define m where "m = min d e"
  have m: "1 < m" "m dvd n" using ge e by (auto simp: m_def min_def)
  have "m * m \<le> d * e" unfolding m_def by (rule mult_le_mono) auto
  then have mm: "m * m \<le> n" using e by simp
  obtain p where p: "is_prime p" "p dvd m" using prime_factor_exists m(1) by blast
  then have "p \<le> m" using m(1) by (auto dest: dvd_imp_le)
  then have "p * p \<le> m * m" by (rule mult_le_mono) fact
  with p mm m(2) show ?thesis by (meson dvd_trans le_trans)
qed

text \<open>Trial division up to \<open>k\<close>, for the leaves of the certificate tree.\<close>

lemma trial_division:
  assumes "1 < n" and "n < k * k" and "\<forall>d \<in> {2..<k}. \<not> d dvd n"
  shows "is_prime n"
proof (rule ccontr)
  assume "\<not> is_prime n"
  then obtain p where p: "is_prime p" "p dvd n" "p * p \<le> n"
    using composite_small_factor assms(1) by blast
  with assms(2) have "p * p < k * k" by simp
  then have "p < k" by (metis mult_le_mono not_le)
  with p assms(3) is_prime_gt1 show False by force
qed

subsection \<open>Fermat's little theorem\<close>

lemma prime_dvd_binomial:
  assumes "is_prime p" "0 < k" "k < p"
  shows "p dvd (p choose k)"
proof -
  have "k * (p choose k) = p * ((p - 1) choose (k - 1))"
    using assms(2) is_prime_gt1 [OF assms(1)] by (simp add: binomial_absorption times_binomial_minus1_eq)
  then have "p dvd k * (p choose k)" by simp
  then have "p dvd k \<or> p dvd (p choose k)"
    by (rule is_prime_dvd_mult [OF assms(1)])
  with assms(2,3) show ?thesis by (auto dest: dvd_imp_le)
qed

lemma fermat_nat:
  assumes "is_prime p"
  shows "a ^ p mod p = a mod (p::nat)"
proof (induction a)
  case 0
  then show ?case using is_prime_gt1 [OF assms] by (simp add: power_0_left)
next
  case (Suc a)
  have p1: "1 < p" using assms by (rule is_prime_gt1)
  have "(a + 1) ^ p = (\<Sum>k\<le>p. (p choose k) * a ^ k)"
    using binomial [of a 1 p] by simp
  also have "\<dots> = (\<Sum>k \<in> {0, p} \<union> {0<..<p}. (p choose k) * a ^ k)"
    using p1 by (intro sum.cong) auto
  also have "\<dots> = (\<Sum>k \<in> {0, p}. (p choose k) * a ^ k) + (\<Sum>k \<in> {0<..<p}. (p choose k) * a ^ k)"
    by (rule sum.union_disjoint) auto
  also have "(\<Sum>k \<in> {0, p}. (p choose k) * a ^ k) = 1 + a ^ p" using p1 by simp
  finally have eq: "(a + 1) ^ p = 1 + a ^ p + (\<Sum>k \<in> {0<..<p}. (p choose k) * a ^ k)" .
  have "p dvd (\<Sum>k \<in> {0<..<p}. (p choose k) * a ^ k)"
    using prime_dvd_binomial [OF assms] by (intro dvd_sum) auto
  then have "(a + 1) ^ p mod p = (1 + a ^ p) mod p"
    unfolding eq by (metis dvd_imp_mod_0 mod_add_right_eq add.right_neutral)
  also have "\<dots> = (1 + a) mod p" using Suc by (metis mod_add_right_eq)
  finally show ?case by simp
qed

lemma fermat_int:
  assumes "is_prime p" and "\<not> int p dvd a"
  shows "int p dvd a ^ (p - 1) - 1"
proof -
  define b where "b = nat (a mod int p)"
  have p1: "1 < p" using assms(1) by (rule is_prime_gt1)
  then have b: "int b = a mod int p" by (simp add: b_def)
  have "int p dvd int (b ^ p) - int b"
    using fermat_nat [OF assms(1), of b] by (metis mod_eq_dvd_iff zmod_int)
  moreover have "int (b ^ p) - int b = int b * (int b ^ (p - 1) - 1)"
    using p1 by (cases p) (simp_all add: right_diff_distrib)
  moreover have "\<not> int p dvd int b"
    using assms(2) by (simp add: b dvd_mod_iff)
  ultimately have "int p dvd int b ^ (p - 1) - 1"
    using is_prime_int_dvd_mult [OF assms(1)] by metis
  then show ?thesis
    by (metis b mod_eq_dvd_iff power_mod)
qed

subsection \<open>A Pocklington criterion\<close>

lemma int_dvd_power_trans:
  assumes "m dvd a - (1::int)"
  shows "m dvd a ^ k - 1"
proof -
  have "a mod m = 1 mod m" using assms by (simp add: mod_eq_dvd_iff)
  then have "a ^ k mod m = 1 ^ k mod m" by (metis power_mod)
  then show ?thesis by (simp add: mod_eq_dvd_iff)
qed

text \<open>If \<open>a\<close> has orders dividing \<open>x\<close> and \<open>y\<close> modulo \<open>m\<close>, then its order divides \<open>gcd x y\<close>.\<close>

lemma power_gcd_cong:
  assumes "int m dvd a ^ x - 1" and "int m dvd a ^ y - 1" and "0 < x"
  shows "int m dvd a ^ gcd x y - 1"
proof -
  obtain u v where uv: "x * u = y * v + gcd x y"
    using bezout_nat [of x y] assms(3) by auto
  have xu: "int m dvd a ^ (x * u) - 1" and yv: "int m dvd a ^ (y * v) - 1"
    using assms(1,2) by (simp_all add: power_mult int_dvd_power_trans)
  have "a ^ (x * u) - 1 = (a ^ (y * v) - 1) * a ^ gcd x y + (a ^ gcd x y - 1)"
    unfolding uv by (simp add: power_add algebra_simps)
  with xu yv show ?thesis by (metis dvd_add_right_iff dvd_mult2)
qed

lemma dvd_primepow_step:
  assumes "is_prime q"
  shows "d dvd q ^ Suc e * m \<Longrightarrow> \<not> q ^ Suc e dvd d \<Longrightarrow> d dvd q ^ e * m"
proof (induction e arbitrary: d)
  case 0
  then have "coprime d q" using is_prime_coprime [OF assms] by (simp add: coprime_commute)
  with 0 show ?case by (simp add: coprime_dvd_mult_right_iff)
next
  case (Suc e)
  show ?case
  proof (cases "q dvd d")
    case True
    then obtain d' where d: "d = q * d'" by blast
    have "d' dvd q ^ Suc e * m" "\<not> q ^ Suc e dvd d'"
      using Suc.prems is_prime_gt1 [OF assms] by (simp_all add: d mult.assoc)
    then show ?thesis using Suc.IH [of d'] by (simp add: d mult.assoc)
  next
    case False
    then have "coprime d (q ^ Suc (Suc e))"
      using is_prime_coprime [OF assms] by (simp add: coprime_commute)
    with Suc.prems(1) show ?thesis by (simp add: coprime_dvd_mult_right_iff)
  qed
qed

text \<open>
  One prime power \<open>q ^ Suc e\<close> of the factored part of \<open>n - 1\<close>: a base \<open>a\<close> with
  \<open>a ^ (n - 1) = 1\<close> modulo \<open>n\<close> and \<open>a ^ ((n - 1) / q) - 1\<close> invertible (inverse \<open>u\<close>) forces
  \<open>q ^ Suc e\<close> to divide \<open>p - 1\<close> for every prime factor \<open>p\<close> of \<open>n\<close>.
\<close>

definition pock_witness :: "nat \<Rightarrow> nat \<Rightarrow> int \<Rightarrow> int \<Rightarrow> bool" where
  "pock_witness n k a u \<longleftrightarrow>
     int n dvd a ^ (n - 1) - 1 \<and> int n dvd u * (a ^ k - 1) - 1"

lemma pock_factor:
  assumes w: "pock_witness n (q ^ e * m) a u" and q: "is_prime q" "n - 1 = q ^ Suc e * m"
    and n: "1 < n" and p: "is_prime p" "p dvd n"
  shows "q ^ Suc e dvd p - 1"
proof (rule ccontr)
  assume nq: "\<not> q ^ Suc e dvd p - 1"
  have pn: "int p dvd int n" using p(2) by simp
  have a1: "int p dvd a ^ (n - 1) - 1" and u1: "int p dvd u * (a ^ (q ^ e * m) - 1) - 1"
    using w pn unfolding pock_witness_def by (meson dvd_trans)+
  have p1: "1 < p" using p(1) by (rule is_prime_gt1)
  have na: "\<not> int p dvd a"
  proof
    assume "int p dvd a"
    then have "int p dvd a ^ (n - 1)" using n by (auto intro: dvd_trans dvd_power)
    with a1 have "int p dvd 1" by (metis dvd_diffD1 dvd_diff_commute zdvd_zdiffD)
    then show False using p1 by simp
  qed
  let ?d = "gcd (n - 1) (p - 1)"
  have ad: "int p dvd a ^ ?d - 1"
    using power_gcd_cong [OF a1 fermat_int [OF p(1) na]] n by simp
  have "?d dvd q ^ Suc e * m" unfolding q(2) [symmetric] by simp
  moreover have "\<not> q ^ Suc e dvd ?d" using nq by (meson dvd_trans gcd_dvd2)
  ultimately have "?d dvd q ^ e * m" by (rule dvd_primepow_step [OF q(1)])
  then obtain l where l: "q ^ e * m = ?d * l" by blast
  have "int p dvd a ^ (q ^ e * m) - 1"
    unfolding l power_mult by (rule int_dvd_power_trans [OF ad])
  then have "int p dvd u * (a ^ (q ^ e * m) - 1)" by simp
  with u1 have "int p dvd 1" by (metis dvd_diffD1 dvd_diff_commute zdvd_zdiffD)
  then show False using p1 by simp
qed

text \<open>
  When \<open>F\<close> divides \<open>p - 1\<close> for every prime factor \<open>p\<close>, the only candidates below the square root
  are the numbers \<open>1 + k * F\<close>; the few that are left are excluded by division.
\<close>

lemma pocklington:
  assumes "1 < n" "0 < F" and F: "\<And>p. is_prime p \<Longrightarrow> p dvd n \<Longrightarrow> F dvd p - 1"
    and K: "\<forall>k \<in> {1..K}. \<not> (1 + k * F) dvd n" and n: "n < (1 + Suc K * F) * (1 + Suc K * F)"
  shows "is_prime n"
proof (rule ccontr)
  assume "\<not> is_prime n"
  then obtain p where p: "is_prime p" "p dvd n" "p * p \<le> n"
    using composite_small_factor assms(1) by blast
  have p1: "1 < p" using p(1) by (rule is_prime_gt1)
  obtain k where k: "p - 1 = F * k" using F p(1,2) by blast
  with p1 have pk: "p = 1 + k * F" by (simp add: mult.commute)
  with p1 have "1 \<le> k" by (cases k) simp_all
  with K p(2) pk have "Suc K \<le> k" by (metis atLeastAtMost_iff not_less_eq_eq)
  then have "1 + Suc K * F \<le> p" unfolding pk by (intro add_left_mono mult_le_mono1)
  then have "(1 + Suc K * F) * (1 + Suc K * F) \<le> p * p" by (rule mult_le_mono) fact
  with p(3) n show False by simp
qed

lemma no_cofactor:
  assumes "N = int n" "Q = int F" "K = nat k'" "list_all (\<lambda>j. N mod (1 + j * Q) \<noteq> 0) [1..k']"
  shows "\<forall>k \<in> {1..K}. \<not> 1 + k * F dvd n"
proof
  fix k assume "k \<in> {1..K}"
  then have "int k \<in> set [1..k']" using assms(3) by auto
  then have "int n mod (1 + int k * int F) \<noteq> 0"
    using assms(4) unfolding assms(1,2) list_all_iff by (rule bspec [rotated])
  then have "\<not> int (1 + k * F) dvd int n" by (simp add: dvd_eq_mod_eq_0)
  then show "\<not> 1 + k * F dvd n" using int_dvd_int_iff by blast
qed

lemma pocklington_prime:
  assumes q: "is_prime q" and w: "pock_witness n k a u" and n1: "n - 1 = q * k" "1 < n"
    and K: "N = int n" "Q = int q" "K = nat k'" "list_all (\<lambda>j. N mod (1 + j * Q) \<noteq> 0) [1..k']"
    and n: "F = 1 + (K + 1) * q" "n < F * F"
  shows "is_prime n"
proof (rule pocklington [OF n1(2) _ _ _ n(2) [unfolded n(1) Suc_eq_plus1 [symmetric]]])
  show "0 < q" using is_prime_gt1 [OF q] by simp
  show "\<forall>k\<in>{1..K}. \<not> 1 + k * q dvd n" using no_cofactor [OF K] .
  show "q dvd p - 1" if "is_prime p" "p dvd n" for p
    using pock_factor [of n q 0 k a u p] w q n1 that by simp
qed

text \<open>Two factored parts: an odd prime \<open>q\<close> and a power of two.\<close>

lemma pocklington_prime_two:
  assumes q: "is_prime q" "odd q" and two: "is_prime 2"
    and w: "pock_witness n k a u" and n1: "n - 1 = q * k" "1 < n"
    and w2: "pock_witness n (2 ^ e * m) b v" and n2: "n - 1 = 2 ^ Suc e * m"
    and K: "N = int n" "Q = int (q * 2 ^ Suc e)" "K = nat k'"
      "list_all (\<lambda>j. N mod (1 + j * Q) \<noteq> 0) [1..k']"
    and n: "F = 1 + (K + 1) * (q * 2 ^ Suc e)" "n < F * F"
  shows "is_prime n"
proof (rule pocklington [OF n1(2) _ _ _ n(2) [unfolded n(1) Suc_eq_plus1 [symmetric]]])
  show "0 < q * 2 ^ Suc e" using is_prime_gt1 [OF q(1)] by simp
  show "\<forall>k\<in>{1..K}. \<not> 1 + k * (q * 2 ^ Suc e) dvd n" using no_cofactor [OF K] .
  show "q * 2 ^ Suc e dvd p - 1" if p: "is_prime p" "p dvd n" for p
  proof (rule divides_mult)
    show "q dvd p - 1" using pock_factor [of n q 0 k a u p] w q(1) n1 p by simp
    show "2 ^ Suc e dvd p - 1" by (rule pock_factor [OF w2 two n2 n1(2) p])
    show "coprime q (2 ^ Suc e)" using q(2) by simp
  qed
qed

lemma trial_division_int:
  assumes "1 < n" and "n < k * k" and "list_all (\<lambda>d. int n mod d \<noteq> 0) [2..int k]"
  shows "is_prime n"
proof (rule trial_division [OF assms(1,2)])
  show "\<forall>d\<in>{2..<k}. \<not> d dvd n"
  proof
    fix d assume "d \<in> {2..<k}"
    then have "int n mod int d \<noteq> 0" using assms(3) by (auto simp: list_all_iff)
    then have "\<not> int d dvd int n" by (simp add: dvd_eq_mod_eq_0)
    then show "\<not> d dvd n" using int_dvd_int_iff by blast
  qed
qed

subsection \<open>Modular powers by square-and-multiply\<close>

text \<open>
  \<open>redc n mu s t x\<close> subtracts a multiple of \<open>n\<close> from \<open>x\<close>: the Barrett estimate of \<open>x div n\<close> for
  \<open>mu = 2 ^ (s + t) div n\<close>. \<open>pow_num\<close> follows the binary digits of the exponent.
\<close>

definition redc :: "int \<Rightarrow> int \<Rightarrow> nat \<Rightarrow> nat \<Rightarrow> int \<Rightarrow> int" where
  "redc n mu s t x = x - n * drop_bit t (drop_bit s x * mu)"

fun pow_num :: "int \<Rightarrow> int \<Rightarrow> nat \<Rightarrow> nat \<Rightarrow> int \<Rightarrow> num \<Rightarrow> int" where
  "pow_num n mu s t a num.One = a"
| "pow_num n mu s t a (num.Bit0 m) = (let x = pow_num n mu s t a m in redc n mu s t (x * x))"
| "pow_num n mu s t a (num.Bit1 m) = (let x = pow_num n mu s t a m in redc n mu s t (redc n mu s t (x * x) * a))"

lemma redc_mod: "redc n mu s t x mod n = x mod n"
proof -
  have "redc n mu s t x mod n = (x - n * drop_bit t (drop_bit s x * mu) mod n) mod n"
    unfolding redc_def by (rule mod_diff_right_eq [symmetric])
  then show ?thesis by simp
qed

lemma pow_num_mod: "pow_num n mu s t a m mod n = a ^ numeral m mod n"
proof (induction m)
  case (Bit0 m)
  have "pow_num n mu s t a m * pow_num n mu s t a m mod n = a ^ numeral m * a ^ numeral m mod n"
    using Bit0 Bit0 by (rule mod_mult_cong)
  then show ?case by (simp only: pow_num.simps Let_def redc_mod power_numeral_even)
next
  case (Bit1 m)
  have "pow_num n mu s t a m * pow_num n mu s t a m mod n = a ^ numeral m * a ^ numeral m mod n"
    using Bit1 Bit1 by (rule mod_mult_cong)
  then have "redc n mu s t (pow_num n mu s t a m * pow_num n mu s t a m) mod n
      = a ^ numeral m * a ^ numeral m mod n"
    by (simp only: redc_mod)
  then have "redc n mu s t (pow_num n mu s t a m * pow_num n mu s t a m) * a mod n
      = a ^ numeral m * a ^ numeral m * a mod n"
    by (rule mod_mult_cong) simp
  then show ?case
    by (simp only: pow_num.simps Let_def redc_mod power_numeral_odd)
      (simp only: mult.assoc mult.left_commute mult.commute)
qed simp

text \<open>
  Congruences of powers are kept behind \<open>pow_cong\<close>, so that the simplifier never expands a power
  with a large numeral exponent.
\<close>

definition pow_cong :: "int \<Rightarrow> int \<Rightarrow> nat \<Rightarrow> int \<Rightarrow> bool" where
  "pow_cong n a k x \<longleftrightarrow> a ^ k mod n = x mod n"

lemma pow_congI: "pow_num n mu s t a m = x \<Longrightarrow> pow_cong n a (numeral m) x"
  unfolding pow_cong_def using pow_num_mod by metis

lemma pow_cong_trans:
  assumes "pow_cong n a k x" "pow_cong n x l y" "k * l = m" "y mod n = z mod n"
  shows "pow_cong n a m z"
proof -
  have "a ^ m mod n = (a ^ k) ^ l mod n" by (simp only: assms(3) [symmetric] power_mult)
  also have "\<dots> = (a ^ k mod n) ^ l mod n" by (rule power_mod [symmetric])
  also have "\<dots> = x ^ l mod n" using assms(1) by (simp only: pow_cong_def power_mod)
  also have "\<dots> = z mod n" using assms(2,4) by (simp only: pow_cong_def)
  finally show ?thesis by (simp add: pow_cong_def)
qed

lemma pow_cong_square: "x * x mod n = y mod n \<Longrightarrow> pow_cong n x 2 y"
  by (simp add: pow_cong_def power2_eq_square)

lemma pock_witnessI:
  assumes "pow_cong N a e 1" "pow_cong N a k x" "N = int n" "n - 1 = e"
    "u * (x - 1) mod N = 1 mod N"
  shows "pock_witness n k a u"
proof -
  have "(a ^ k - 1) mod N = (x - 1) mod N"
    using assms(2) unfolding pow_cong_def by (metis mod_diff_left_eq)
  then have "u * (a ^ k - 1) mod N = u * (x - 1) mod N" by (metis mod_mult_right_eq)
  with assms show ?thesis by (simp add: pock_witness_def mod_eq_dvd_iff [symmetric] pow_cong_def)
qed

end
