(* ===== verification/Bn254_Cert.thy ===== *)
theory Bn254_Cert
  imports Bn254_Prime
begin

text \<open>
  The certificate tree for the order of the BN254 scalar field. Every prime \<open>n\<close> is certified by a
  prime factor of \<open>n - 1\<close> certified before it; the field order itself uses the largest prime factor
  of its predecessor together with the factor \<open>2 ^ 28\<close>. The powers are evaluated by \<open>code_simp\<close>
  in the kernel, in pieces that check in parallel.
\<close>

lemma prime_1637: "is_prime 1637"
  by (rule trial_division_int [where k = 42]) (simp, simp, code_simp)

lemma pow_639533339_a: "pow_cong
    639533339
    2 390674
    248876995"
  by (rule pow_congI [where mu = "1890324938344815"
      and s = 26 and t = 54]) code_simp

lemma pow_639533339_b: "pow_cong
    639533339
    248876995 1637
    639533340"
  by (rule pow_congI [where mu = "1890324938344815"
      and s = 26 and t = 54]) code_simp

lemma prime_639533339: "is_prime 639533339"
proof (rule pocklington_prime [OF prime_1637, where k' = 15 and K = 15 and F = 26193])
  show "pock_witness 639533339 390674 2 296391531"
    by (rule pock_witnessI [OF pow_cong_trans [OF pow_639533339_a pow_639533339_b refl] pow_639533339_a]) simp_all
  show "list_all (\<lambda>j. 639533339 mod (1 + j * 1637) \<noteq> (0::int)) [1..15]" by code_simp
qed simp_all

lemma pow_65865678001877903_a: "pow_cong
    65865678001877903
    2 102990218
    8595199928015311"
  by (rule pow_congI [where mu = "82660925020460371125843"
      and s = 52 and t = 80]) code_simp

lemma pow_65865678001877903_b: "pow_cong
    65865678001877903
    8595199928015311 639533339
    65865678001877904"
  by (rule pow_congI [where mu = "82660925020460371125843"
      and s = 52 and t = 80]) code_simp

lemma prime_65865678001877903: "is_prime 65865678001877903"
proof (rule pocklington_prime [OF prime_639533339, where k' = 0 and K = 0 and F = 639533340])
  show "pock_witness 65865678001877903 102990218 2 39033286818209505"
    by (rule pock_witnessI [OF pow_cong_trans [OF pow_65865678001877903_a pow_65865678001877903_b refl] pow_65865678001877903_a]) simp_all
  show "list_all (\<lambda>j. 65865678001877903 mod (1 + j * 639533339) \<noteq> (0::int)) [1..0]" by code_simp
qed simp_all

lemma pow_13818364434197438864469338081_a: "pow_cong
    13818364434197438864469338081
    2 209796131360
    7935281130018080704632618576"
  by (rule pow_congI [where mu = "29770248229395026428303578423281688"
      and s = 90 and t = 118]) code_simp

lemma pow_13818364434197438864469338081_b: "pow_cong
    13818364434197438864469338081
    7935281130018080704632618576 65865678001877903
    13818364434197438864469338082"
  by (rule pow_congI [where mu = "29770248229395026428303578423281688"
      and s = 90 and t = 118]) code_simp

lemma prime_13818364434197438864469338081: "is_prime 13818364434197438864469338081"
proof (rule pocklington_prime [OF prime_65865678001877903, where k' = 0 and K = 0 and F = 65865678001877904])
  show "pock_witness 13818364434197438864469338081 209796131360 2 12281824895882260584345986666"
    by (rule pock_witnessI [OF pow_cong_trans [OF pow_13818364434197438864469338081_a pow_13818364434197438864469338081_b refl] pow_13818364434197438864469338081_a]) simp_all
  show "list_all (\<lambda>j. 13818364434197438864469338081 mod (1 + j * 65865678001877903) \<noteq> (0::int)) [1..0]" by code_simp
qed simp_all

lemma pow_r_a: "pow_cong
    21888242871839275222246405745257275088548364400416034343698204186575808495617
    5 3531672711913530788295939
    5713081989509216783199116550089504120950104741169201957310594504273865300277"
  by (rule pow_congI [where mu = "40144570107416810219786172909161359413571230405205043037539658320668772367813118733"
      and s = 250 and t = 278]) code_simp

lemma pow_r_b: "pow_cong
    21888242871839275222246405745257275088548364400416034343698204186575808495617
    5713081989509216783199116550089504120950104741169201957310594504273865300277 1670836401704629
    16396691014163678362074761788426770985134934517581268310236628263713517590642"
  by (rule pow_congI [where mu = "40144570107416810219786172909161359413571230405205043037539658320668772367813118733"
      and s = 250 and t = 278]) code_simp

lemma pow_r_c: "pow_cong
    21888242871839275222246405745257275088548364400416034343698204186575808495617
    16396691014163678362074761788426770985134934517581268310236628263713517590642 134217728
    18497692122595933478703933290921908586032367088158849348125669095645400405648"
  by (rule pow_congI [where mu = "40144570107416810219786172909161359413571230405205043037539658320668772367813118733"
      and s = 250 and t = 278]) code_simp

lemma pow_r_d: "pow_cong
    21888242871839275222246405745257275088548364400416034343698204186575808495617
    18497692122595933478703933290921908586032367088158849348125669095645400405648 13818364434197438864469338081
    21888242871839275222246405745257275088548364400416034343698204186575808495616"
  by (rule pow_congI [where mu = "40144570107416810219786172909161359413571230405205043037539658320668772367813118733"
      and s = 250 and t = 278]) code_simp

lemma pow_r_e: "pow_cong
    21888242871839275222246405745257275088548364400416034343698204186575808495617
    18497692122595933478703933290921908586032367088158849348125669095645400405648 2
    7740382856488830440021062471495669005558519249383073335662966997885018076746"
  by (rule pow_cong_square) simp

lemmas pow_r_y = pow_cong_trans [OF pow_cong_trans [OF pow_r_a pow_r_b refl refl] pow_r_c refl refl]

lemma pow_r_half: "pow_cong
    21888242871839275222246405745257275088548364400416034343698204186575808495617
    5 10944121435919637611123202872628637544274182200208017171849102093287904247808 (- 1)"
  by (rule pow_cong_trans [OF pow_r_y pow_r_d]) simp_all

lemma pow_r_full: "pow_cong
    21888242871839275222246405745257275088548364400416034343698204186575808495617
    5 21888242871839275222246405745257275088548364400416034343698204186575808495616 1"
  by (rule pow_cong_trans [OF pow_r_half pow_cong_square [OF refl]]) simp_all

lemma pow_r_q: "pow_cong
    21888242871839275222246405745257275088548364400416034343698204186575808495617
    5 1583996642733683218748855262055434666238317428736
    7740382856488830440021062471495669005558519249383073335662966997885018076746"
  by (rule pow_cong_trans [OF pow_r_y pow_r_e]) simp_all

lemma bn254_r_factor_q: "pock_witness
    21888242871839275222246405745257275088548364400416034343698204186575808495617
    1583996642733683218748855262055434666238317428736
    5 2255585147557280690525146673566167207551177805174052351268366332094790400018"
  by (rule pock_witnessI [OF pow_r_full pow_r_q]) simp_all

lemma bn254_r_factor_two: "pock_witness
    21888242871839275222246405745257275088548364400416034343698204186575808495617
    (2 ^ 27 * 81540058820840996586704275553141814055101440848469862132140264610111)
    5 10944121435919637611123202872628637544274182200208017171849102093287904247808"
  by (rule pock_witnessI [OF pow_r_full, where x = "-1"]) (simp_all add: pow_r_half)

lemma prime_2: "is_prime 2"
  by (rule trial_division [where k = 2]) auto

lemma bn254_r_prime: "is_prime 21888242871839275222246405745257275088548364400416034343698204186575808495617"
proof (rule pocklington_prime_two [OF prime_13818364434197438864469338081 _ prime_2
      bn254_r_factor_q _ _ bn254_r_factor_two, where k' = 39 and K = 39
      and F = 148373558322718859824637958631655997441])
  show "list_all (\<lambda>j. 21888242871839275222246405745257275088548364400416034343698204186575808495617
      mod (1 + j * 3709338958067971495615948965791399936) \<noteq> (0::int)) [1..39]"
    by code_simp
qed simp_all

end
