(* ===== verification/Scalar_Field.thy ===== *)
theory Scalar_Field
  imports Bn254_Cert
begin

text \<open>
  The BN254 scalar field \<open>ark_bn254::Fr\<close> as the integers modulo its order, with the ring
  operations the program uses (\<open>+\<close>, \<open>*\<close>, \<open>Fr::from\<close>) and the class instances that give the
  library's algebra on it. The order is prime (\<open>Bn254_Cert\<close>), so \<open>fr\<close> is an integral domain and
  \<open>x ^ 5\<close> is a permutation. The base field \<open>ark_bn254::Fq\<close> occurs in the program only as data to be
  serialized, so it is the type of the numbers below its order, without arithmetic.
\<close>

definition R_MOD :: int where
  "R_MOD = 21888242871839275222246405745257275088548364400416034343698204186575808495617"

definition Q_MOD :: nat where
  "Q_MOD = 21888242871839275222246405745257275088696311157297823662689037894645226208583"

lemma R_MOD_pos [simp]: "0 < R_MOD" "0 \<le> R_MOD" "R_MOD \<noteq> 0" "1 < R_MOD"
  by (simp_all add: R_MOD_def)

lemma R_MOD_lt_2_256: "R_MOD < 2 ^ 256"
  by (simp add: R_MOD_def)

lemma Q_MOD_pos [simp]: "0 < Q_MOD"
  by (simp add: Q_MOD_def)

lemma Q_MOD_lt_2_256: "Q_MOD < 2 ^ 256"
  by (simp add: Q_MOD_def)

lemma R_MOD_prime: "is_prime (nat R_MOD)"
  using bn254_r_prime by (simp add: R_MOD_def)

subsection \<open>Field elements\<close>

typedef fr = "{0..<R_MOD}" morphisms fr_int Abs_fr
  by (rule exI [of _ 0]) simp

typedef fq = "{0..<Q_MOD}" morphisms fq_nat Abs_fq
  by (rule exI [of _ 0]) simp

setup_lifting type_definition_fr
setup_lifting type_definition_fq

lift_definition fr_of_int :: "int \<Rightarrow> fr" is "\<lambda>k. k mod R_MOD"
  by simp

lift_definition fq_of_nat :: "nat \<Rightarrow> fq" is "\<lambda>k. k mod Q_MOD"
  by simp

lemma fr_int_range: "0 \<le> fr_int x" "fr_int x < R_MOD"
  using fr_int [of x] by simp_all

lemma fr_int_mod [simp]: "fr_int x mod R_MOD = fr_int x"
  by (simp add: fr_int_range)

lemma fr_int_of_int [simp]: "fr_int (fr_of_int k) = k mod R_MOD"
  by transfer simp

lemma fr_of_int_int [simp]: "fr_of_int (fr_int x) = x"
  by transfer simp

lemma fr_eq_iff: "x = y \<longleftrightarrow> fr_int x = fr_int y"
  by (simp add: fr_int_inject)

lemma fr_of_int_eq_iff: "fr_of_int a = fr_of_int b \<longleftrightarrow> a mod R_MOD = b mod R_MOD"
  by (simp add: fr_eq_iff)

lemma fq_nat_less: "fq_nat x < Q_MOD"
  using fq_nat [of x] by simp

instantiation fr :: equal
begin

definition equal_fr :: "fr \<Rightarrow> fr \<Rightarrow> bool" where
  "equal_fr x y \<longleftrightarrow> fr_int x = fr_int y"

instance by standard (simp add: equal_fr_def fr_eq_iff)

end

instantiation fq :: equal
begin

definition equal_fq :: "fq \<Rightarrow> fq \<Rightarrow> bool" where
  "equal_fq x y \<longleftrightarrow> fq_nat x = fq_nat y"

instance by standard (simp add: equal_fq_def fq_nat_inject)

end

instantiation fr :: linorder
begin

definition less_eq_fr :: "fr \<Rightarrow> fr \<Rightarrow> bool" where
  "less_eq_fr x y \<longleftrightarrow> fr_int x \<le> fr_int y"

definition less_fr :: "fr \<Rightarrow> fr \<Rightarrow> bool" where
  "less_fr x y \<longleftrightarrow> fr_int x < fr_int y"

instance by standard (auto simp: less_eq_fr_def less_fr_def fr_eq_iff)

end

instantiation fr :: comm_ring_1
begin

lift_definition zero_fr :: fr is 0 by simp
lift_definition one_fr :: fr is 1 by simp
lift_definition plus_fr :: "fr \<Rightarrow> fr \<Rightarrow> fr" is "\<lambda>x y. (x + y) mod R_MOD" by simp
lift_definition minus_fr :: "fr \<Rightarrow> fr \<Rightarrow> fr" is "\<lambda>x y. (x - y) mod R_MOD" by simp
lift_definition uminus_fr :: "fr \<Rightarrow> fr" is "\<lambda>x. (- x) mod R_MOD" by simp
lift_definition times_fr :: "fr \<Rightarrow> fr \<Rightarrow> fr" is "\<lambda>x y. (x * y) mod R_MOD" by simp

instance
  by standard (transfer; simp add: mod_simps algebra_simps)+

end

lemma fr_int_ring [simp]:
  "fr_int 0 = 0"
  "fr_int 1 = 1"
  "fr_int (x + y) = (fr_int x + fr_int y) mod R_MOD"
  "fr_int (x - y) = (fr_int x - fr_int y) mod R_MOD"
  "fr_int (- x) = (- fr_int x) mod R_MOD"
  "fr_int (x * y) = (fr_int x * fr_int y) mod R_MOD"
  by (transfer; simp)+

lemma fr_int_power: "fr_int (x ^ n) = fr_int x ^ n mod R_MOD"
  by (induction n) (simp_all add: mod_mult_right_eq)

lemma fr_of_int_ring:
  "fr_of_int 0 = 0"
  "fr_of_int 1 = 1"
  "fr_of_int (a + b) = fr_of_int a + fr_of_int b"
  "fr_of_int (a * b) = fr_of_int a * fr_of_int b"
  by (simp_all add: fr_eq_iff mod_simps)

text \<open>No zero divisors: Euclid's lemma for the prime order.\<close>

instance fr :: idom
proof
  fix x y :: fr
  assume "x \<noteq> 0" "y \<noteq> 0"
  have nz: "\<not> R_MOD dvd fr_int z" if "z \<noteq> 0" for z :: fr
    using that fr_int_range [of z] by (auto simp: fr_eq_iff dvd_eq_mod_eq_0)
  show "x * y \<noteq> 0"
  proof
    assume "x * y = 0"
    then have "R_MOD dvd fr_int x * fr_int y" by (simp add: fr_eq_iff dvd_eq_mod_eq_0)
    then have "R_MOD dvd fr_int x \<or> R_MOD dvd fr_int y"
      using is_prime_int_dvd_mult [OF R_MOD_prime] by simp
    with nz \<open>x \<noteq> 0\<close> \<open>y \<noteq> 0\<close> show False by blast
  qed
qed

subsection \<open>Fermat and the fifth-power map\<close>

lemma fr_fermat: "x \<noteq> 0 \<Longrightarrow> x ^ (nat R_MOD - 1) = (1::fr)"
proof -
  assume "x \<noteq> 0"
  then have "\<not> int (nat R_MOD) dvd fr_int x"
    using fr_int_range [of x] by (auto simp: fr_eq_iff dvd_eq_mod_eq_0)
  then have "int (nat R_MOD) dvd fr_int x ^ (nat R_MOD - 1) - 1"
    by (rule fermat_int [OF R_MOD_prime])
  then show ?thesis by (simp add: fr_eq_iff fr_int_power mod_eq_dvd_iff [symmetric])
qed

text \<open>\<open>5 * FIFTH_ROOT = 1\<close> modulo \<open>R_MOD - 1\<close>: raising to \<open>FIFTH_ROOT\<close> undoes the fifth power.\<close>

definition FIFTH_ROOT :: nat where
  "FIFTH_ROOT = 17510594297471420177797124596205820070838691520332827474958563349260646796493"

lemma fifth_root_exponent: "5 * FIFTH_ROOT = Suc (4 * (nat R_MOD - 1))"
  by (simp add: FIFTH_ROOT_def R_MOD_def)

lemma fr_fifth_root: "(x ^ 5) ^ FIFTH_ROOT = (x::fr)"
proof (cases "x = 0")
  case True
  then show ?thesis by (simp add: FIFTH_ROOT_def)
next
  case False
  have "(x ^ 5) ^ FIFTH_ROOT = x ^ Suc (4 * (nat R_MOD - 1))"
    by (simp only: power_mult [symmetric] fifth_root_exponent)
  also have "\<dots> = x * (x ^ (nat R_MOD - 1)) ^ 4"
    by (simp only: power_Suc power_mult [symmetric] mult.commute)
  finally have "(x ^ 5) ^ FIFTH_ROOT = x * (x ^ (nat R_MOD - 1)) ^ 4" .
  with fr_fermat [OF False] show ?thesis by simp
qed

lemma fr_fifth_power_of_root: "(x ^ FIFTH_ROOT) ^ 5 = (x::fr)"
  using fr_fifth_root [of x] by (simp only: power_mult [symmetric] mult.commute)

end
