(* ===== verification/Encoding.thy ===== *)
theory Encoding
  imports Scalar_Field
begin

text \<open>
  The Soroban (CAP-0074) byte layout of \<open>src/crypto/encoding.rs\<close>: field elements as 32
  big-endian bytes, uncompressed points with \<open>Fp2\<close> ordered \<open>c1\<close> before \<open>c0\<close>, the encoded
  verifying key and the encoded proof. Points, keys and proofs of arkworks are records of the
  fields the program reads.
\<close>

subsection \<open>Big-endian bytes\<close>

text \<open>\<open>to_bytes_be\<close> of a \<open>w\<close>-byte integer, and the value a byte string denotes.\<close>

fun to_bytes_be :: "nat \<Rightarrow> nat \<Rightarrow> u8 list" where
  "to_bytes_be 0 n = []"
| "to_bytes_be (Suc w) n = to_bytes_be w (n div 256) @ [of_nat n]"

definition be_val :: "u8 list \<Rightarrow> nat" where
  "be_val bs = foldl (\<lambda>acc b. acc * 256 + unat b) 0 bs"

lemma be_val_snoc [simp]: "be_val (bs @ [b]) = be_val bs * 256 + unat b"
  by (simp add: be_val_def)

lemma be_val_Nil [simp]: "be_val [] = 0"
  by (simp add: be_val_def)

lemma length_to_bytes_be [simp, codec]: "length (to_bytes_be w n) = w"
  by (induction w arbitrary: n) simp_all

lemma unat_of_nat_u8: "unat (of_nat n :: u8) = n mod 256"
  by (simp add: unat_of_nat)

lemma be_val_to_bytes_be [codec]: "be_val (to_bytes_be w n) = n mod 256 ^ w"
proof (induction w arbitrary: n)
  case (Suc w)
  have "be_val (to_bytes_be (Suc w) n) = (n div 256) mod 256 ^ w * 256 + n mod 256"
    by (simp add: Suc unat_of_nat_u8)
  also have "\<dots> = n mod (256 * 256 ^ w)" by (simp add: mod_mult2_eq)
  finally show ?case by simp
qed simp

lemma unat_u8_less: "unat (b :: u8) < 256"
proof -
  have "unat b < 2 ^ LENGTH(8)" by (rule unsigned_less)
  then show ?thesis by simp
qed

lemma to_bytes_be_be_val: "to_bytes_be (length bs) (be_val bs) = bs"
proof (induction bs rule: rev_induct)
  case (snoc b bs)
  have b: "unat b < 256" by (rule unat_u8_less)
  then have "(be_val bs * 256 + unat b) div 256 = be_val bs" by simp
  moreover have "(of_nat (be_val bs * 256 + unat b) :: u8) = b"
  proof (rule word_unat_eq_iff [THEN iffD2])
    show "unat (of_nat (be_val bs * 256 + unat b) :: u8) = unat b"
      using b by (simp only: unat_of_nat_u8) simp
  qed
  ultimately show ?case by (simp only: length_append_singleton to_bytes_be.simps be_val_snoc snoc)
qed simp

subsection \<open>Field elements\<close>

text \<open>\<open>into_bigint\<close>: the canonical representative.\<close>

definition fr_into_bigint :: "fr \<Rightarrow> nat" where
  "fr_into_bigint x = nat (fr_int x)"

definition from_be_bytes_mod_order :: "u8 list \<Rightarrow> fr" where
  "from_be_bytes_mod_order bs = fr_of_int (int (be_val bs))"

definition fq_be :: "fq \<Rightarrow> u8 list" where
  "fq_be x = to_bytes_be 32 (fq_nat x)"

definition fr_from_be :: "u8 list \<Rightarrow> fr" where
  "fr_from_be bytes = from_be_bytes_mod_order bytes"

definition fr_be :: "fr \<Rightarrow> u8 list" where
  "fr_be x = to_bytes_be 32 (fr_into_bigint x)"

lemma length_fr_be [simp, codec]: "length (fr_be x) = 32"
  by (simp add: fr_be_def)

lemma length_fq_be [simp, codec]: "length (fq_be x) = 32"
  by (simp add: fq_be_def)

lemma pow_256_32: "(256::nat) ^ 32 = 2 ^ 256"
  by simp

lemma fr_into_bigint_less: "fr_into_bigint x < 256 ^ 32"
proof -
  have "fr_int x < 2 ^ 256" using fr_int_range(2) R_MOD_lt_2_256 by (rule less_trans)
  then show ?thesis by (simp add: fr_into_bigint_def nat_less_iff fr_int_range)
qed

lemma be_val_fr_be [simp]: "be_val (fr_be x) = fr_into_bigint x"
  unfolding fr_be_def be_val_to_bytes_be by (rule mod_less) (rule fr_into_bigint_less)

lemma int_fr_into_bigint [simp]: "int (fr_into_bigint x) = fr_int x"
  by (simp add: fr_into_bigint_def fr_int_range)

lemma fr_from_be_fr_be [simp, codec]: "fr_from_be (fr_be x) = x"
  by (simp add: fr_from_be_def from_be_bytes_mod_order_def)

lemma fr_be_inj [simp]: "fr_be x = fr_be y \<longleftrightarrow> x = y"
  by (metis fr_from_be_fr_be)

lemma fq_nat_less_pow: "fq_nat x < 256 ^ 32"
  using fq_nat_less Q_MOD_lt_2_256 unfolding pow_256_32 by (rule less_trans)

lemma be_val_fq_be [simp]: "be_val (fq_be x) = fq_nat x"
  unfolding fq_be_def be_val_to_bytes_be by (rule mod_less) (rule fq_nat_less_pow)

lemma fq_be_inj [simp]: "fq_be x = fq_be y \<longleftrightarrow> x = y"
  by (metis be_val_fq_be fq_nat_inject)

subsection \<open>Curve points\<close>

record g1_affine =
  g1_x :: fq
  g1_y :: fq
  g1_infinity :: bool

record fq2 =
  c0 :: fq
  c1 :: fq

record g2_affine =
  g2_x :: fq2
  g2_y :: fq2
  g2_infinity :: bool

text \<open>\<open>out[i..i + n].copy_from_slice(bs)\<close> on a byte buffer.\<close>

definition copy_at :: "nat \<Rightarrow> u8 list \<Rightarrow> u8 list \<Rightarrow> u8 list" where
  "copy_at i bs out = take i out @ bs @ drop (i + length bs) out"

definition g1_bytes :: "g1_affine \<Rightarrow> u8 list" where
  "g1_bytes p =
     (let out = replicate 64 0
      in if g1_infinity p then out
         else let out = copy_at 0 (fq_be (g1_x p)) out
              in copy_at 32 (fq_be (g1_y p)) out)"

definition g2_bytes :: "g2_affine \<Rightarrow> u8 list" where
  "g2_bytes p =
     (let out = replicate 128 0
      in if g2_infinity p then out
         else let out = copy_at 0 (fq_be (c1 (g2_x p))) out;
                  out = copy_at 32 (fq_be (c0 (g2_x p))) out;
                  out = copy_at 64 (fq_be (c1 (g2_y p))) out
              in copy_at 96 (fq_be (c0 (g2_y p))) out)"

lemma g1_bytes_finite [codec]:
  "\<not> g1_infinity p \<Longrightarrow> g1_bytes p = fq_be (g1_x p) @ fq_be (g1_y p)"
  by (simp add: g1_bytes_def copy_at_def Let_def)

lemma g1_bytes_infinite [codec]: "g1_infinity p \<Longrightarrow> g1_bytes p = replicate 64 0"
  by (simp add: g1_bytes_def Let_def)

lemma g2_bytes_finite [codec]:
  "\<not> g2_infinity p \<Longrightarrow> g2_bytes p =
     fq_be (c1 (g2_x p)) @ fq_be (c0 (g2_x p)) @ fq_be (c1 (g2_y p)) @ fq_be (c0 (g2_y p))"
  by (simp add: g2_bytes_def copy_at_def Let_def)

lemma g2_bytes_infinite [codec]: "g2_infinity p \<Longrightarrow> g2_bytes p = replicate 128 0"
  by (simp add: g2_bytes_def Let_def)

lemma length_g1_bytes [simp, codec]: "length (g1_bytes p) = 64"
  by (cases "g1_infinity p") (simp_all add: g1_bytes_finite g1_bytes_infinite)

lemma length_g2_bytes [simp, codec]: "length (g2_bytes p) = 128"
  by (cases "g2_infinity p") (simp_all add: g2_bytes_finite g2_bytes_infinite)

subsection \<open>Verifying key and proof\<close>

text \<open>\<open>ark_groth16::VerifyingKey\<close> and \<open>ark_groth16::Proof\<close>, by the fields the program reads.\<close>

record verifying_key =
  alpha_g1 :: g1_affine
  beta_g2 :: g2_affine
  gamma_g2 :: g2_affine
  delta_g2 :: g2_affine
  gamma_abc_g1 :: "g1_affine list"

record groth_proof =
  proof_a :: g1_affine
  proof_b :: g2_affine
  proof_c :: g1_affine

record encoded_verifying_key =
  enc_alpha_g1 :: "u8 list"
  enc_beta_g2 :: "u8 list"
  enc_gamma_g2 :: "u8 list"
  enc_delta_g2 :: "u8 list"
  enc_ic :: "u8 list list"

record encoded_proof =
  enc_a :: "u8 list"
  enc_b :: "u8 list"
  enc_c :: "u8 list"

definition encoded_vk_from_arkworks :: "verifying_key \<Rightarrow> encoded_verifying_key" where
  "encoded_vk_from_arkworks vk =
     \<lparr> enc_alpha_g1 = g1_bytes (alpha_g1 vk),
       enc_beta_g2 = g2_bytes (beta_g2 vk),
       enc_gamma_g2 = g2_bytes (gamma_g2 vk),
       enc_delta_g2 = g2_bytes (delta_g2 vk),
       enc_ic = map g1_bytes (gamma_abc_g1 vk) \<rparr>"

definition encoded_proof_from_arkworks :: "groth_proof \<Rightarrow> encoded_proof" where
  "encoded_proof_from_arkworks pf =
     \<lparr> enc_a = g1_bytes (proof_a pf),
       enc_b = g2_bytes (proof_b pf),
       enc_c = g1_bytes (proof_c pf) \<rparr>"

subsection \<open>Reading the layout back\<close>

text \<open>
  The decoder a consumer of the documented layout would write: all zeros is the point at
  infinity, otherwise the coordinates are the 32-byte big-endian pieces in the stated order. It is
  a specification of the layout, not code of the program.
\<close>

definition fq_at :: "nat \<Rightarrow> u8 list \<Rightarrow> fq" where
  "fq_at i bs = fq_of_nat (be_val (take 32 (drop i bs)))"

definition g1_parse :: "u8 list \<Rightarrow> g1_affine" where
  "g1_parse bs =
     (if bs = replicate 64 0
      then \<lparr> g1_x = fq_of_nat 0, g1_y = fq_of_nat 0, g1_infinity = True \<rparr>
      else \<lparr> g1_x = fq_at 0 bs, g1_y = fq_at 32 bs, g1_infinity = False \<rparr>)"

definition g2_parse :: "u8 list \<Rightarrow> g2_affine" where
  "g2_parse bs =
     (if bs = replicate 128 0
      then \<lparr> g2_x = \<lparr> c0 = fq_of_nat 0, c1 = fq_of_nat 0 \<rparr>,
             g2_y = \<lparr> c0 = fq_of_nat 0, c1 = fq_of_nat 0 \<rparr>, g2_infinity = True \<rparr>
      else \<lparr> g2_x = \<lparr> c0 = fq_at 32 bs, c1 = fq_at 0 bs \<rparr>,
             g2_y = \<lparr> c0 = fq_at 96 bs, c1 = fq_at 64 bs \<rparr>, g2_infinity = False \<rparr>)"

text \<open>
  The points arkworks produces: the point at infinity is stored with zero coordinates, and no
  finite point of either curve is the origin (\<open>y\<^sup>2 = x\<^sup>3 + b\<close> with \<open>b \<noteq> 0\<close>).
\<close>

definition g1_canonical :: "g1_affine \<Rightarrow> bool" where
  "g1_canonical p \<longleftrightarrow> g1_infinity p = (g1_x p = fq_of_nat 0 \<and> g1_y p = fq_of_nat 0)"

definition fq2_is_zero :: "fq2 \<Rightarrow> bool" where
  "fq2_is_zero z \<longleftrightarrow> c0 z = fq_of_nat 0 \<and> c1 z = fq_of_nat 0"

definition g2_canonical :: "g2_affine \<Rightarrow> bool" where
  "g2_canonical p \<longleftrightarrow> g2_infinity p = (fq2_is_zero (g2_x p) \<and> fq2_is_zero (g2_y p))"

definition proof_canonical :: "groth_proof \<Rightarrow> bool" where
  "proof_canonical pf \<longleftrightarrow>
     g1_canonical (proof_a pf) \<and> g2_canonical (proof_b pf) \<and> g1_canonical (proof_c pf)"

definition vk_canonical :: "verifying_key \<Rightarrow> bool" where
  "vk_canonical vk \<longleftrightarrow>
     g1_canonical (alpha_g1 vk) \<and> g2_canonical (beta_g2 vk) \<and> g2_canonical (gamma_g2 vk) \<and>
     g2_canonical (delta_g2 vk) \<and> list_all g1_canonical (gamma_abc_g1 vk)"

lemma fq_of_nat_nat [simp]: "fq_of_nat (fq_nat x) = x"
  by (metis fq_nat_inject fq_nat_less fq_of_nat.rep_eq mod_less)

lemma fq_nat_0: "fq_nat (fq_of_nat 0) = 0"
  by (simp add: fq_of_nat.rep_eq)

lemma to_bytes_be_0: "to_bytes_be w 0 = replicate w 0"
  by (induction w) (simp_all add: replicate_append_same)

lemma fq_be_0: "fq_be (fq_of_nat 0) = replicate 32 0"
  by (simp add: fq_be_def fq_nat_0 to_bytes_be_0)

lemma fq_be_zero_iff: "fq_be x = replicate 32 0 \<longleftrightarrow> x = fq_of_nat 0"
  using fq_be_inj [of x "fq_of_nat 0"] by (simp only: fq_be_0)

lemma replicate_64: "replicate 64 (0::u8) = replicate 32 0 @ replicate 32 0"
  by (simp add: replicate_add [symmetric])

lemma replicate_128:
  "replicate 128 (0::u8) = replicate 32 0 @ replicate 32 0 @ replicate 32 0 @ replicate 32 0"
  by (simp add: replicate_add [symmetric])

lemma fq_at_fq_be [simp]:
  "fq_at 0 (fq_be x @ r) = x"
  "length a = n \<Longrightarrow> 32 \<le> n \<Longrightarrow> fq_at n (a @ r) = fq_at 0 r"
  "fq_at 0 (fq_be x) = x"
  by (simp_all add: fq_at_def)

lemma g1_bytes_zero_iff:
  "\<not> g1_infinity p \<Longrightarrow> g1_bytes p = replicate 64 0 \<longleftrightarrow> g1_x p = fq_of_nat 0 \<and> g1_y p = fq_of_nat 0"
  by (simp only: simp_thms g1_bytes_finite replicate_64 append_eq_append_conv length_fq_be length_replicate
      fq_be_zero_iff)

lemma g2_bytes_zero_iff:
  "\<not> g2_infinity p \<Longrightarrow> g2_bytes p = replicate 128 0 \<longleftrightarrow> fq2_is_zero (g2_x p) \<and> fq2_is_zero (g2_y p)"
  by (simp only: simp_thms g2_bytes_finite replicate_128 append_eq_append_conv length_fq_be length_replicate
      fq_be_zero_iff fq2_is_zero_def conj_ac)

lemma g1_parse_bytes [codec]:
  assumes "g1_canonical p"
  shows "g1_parse (g1_bytes p) = p"
proof (cases "g1_infinity p")
  case True
  with assms show ?thesis by (cases p) (simp add: g1_parse_def g1_bytes_infinite g1_canonical_def)
next
  case False
  have "fq_at 32 (g1_bytes p) = g1_y p" "fq_at 0 (g1_bytes p) = g1_x p"
    using False by (simp_all add: g1_bytes_finite)
  then show ?thesis
    using False assms g1_bytes_zero_iff [OF False]
    by (cases p) (simp add: g1_parse_def g1_canonical_def)
qed

lemma g2_parse_bytes [codec]:
  assumes "g2_canonical p"
  shows "g2_parse (g2_bytes p) = p"
proof (cases "g2_infinity p")
  case True
  with assms show ?thesis
    by (cases p; cases "g2_x p"; cases "g2_y p")
      (simp add: g2_parse_def g2_bytes_infinite g2_canonical_def fq2_is_zero_def)
next
  case False
  have "fq_at 0 (g2_bytes p) = c1 (g2_x p)" "fq_at 32 (g2_bytes p) = c0 (g2_x p)"
    "fq_at 64 (g2_bytes p) = c1 (g2_y p)" "fq_at 96 (g2_bytes p) = c0 (g2_y p)"
    using False by (simp_all add: g2_bytes_finite fq_at_def)
  then show ?thesis
    using False assms g2_bytes_zero_iff [OF False]
    by (cases p; cases "g2_x p"; cases "g2_y p") (simp add: g2_parse_def g2_canonical_def)
qed

lemma g1_bytes_inj:
  "g1_canonical p \<Longrightarrow> g1_canonical q \<Longrightarrow> g1_bytes p = g1_bytes q \<longleftrightarrow> p = q"
  by (rule iffI) (metis g1_parse_bytes, simp)

lemma g2_bytes_inj:
  "g2_canonical p \<Longrightarrow> g2_canonical q \<Longrightarrow> g2_bytes p = g2_bytes q \<longleftrightarrow> p = q"
  by (rule iffI) (metis g2_parse_bytes, simp)

lemma map_g1_bytes_inj:
  "list_all g1_canonical ps \<Longrightarrow> list_all g1_canonical qs \<Longrightarrow>
     map g1_bytes ps = map g1_bytes qs \<Longrightarrow> ps = qs"
  by (rule map_inj_on [of g1_bytes]) (auto simp: inj_on_def list_all_iff g1_bytes_inj)

lemma encoded_vk_inj:
  assumes "vk_canonical v" "vk_canonical w"
    and "encoded_vk_from_arkworks v = encoded_vk_from_arkworks w"
  shows "v = w"
  using assms map_g1_bytes_inj [of "gamma_abc_g1 v" "gamma_abc_g1 w"]
  by (cases v; cases w) (simp add: encoded_vk_from_arkworks_def vk_canonical_def g1_bytes_inj g2_bytes_inj)

end
