(* ===== verification/Mimc.thy ===== *)
theory Mimc
  imports Scalar_Field
begin

text \<open>
  The MiMC hash of \<open>src/crypto/mimc.rs\<close>, native side: the xorshift schedule of round
  constants on \<open>u128\<close>, the permutation (\<open>t ^ 5\<close> per round) and the two-input hash with
  feed-forward. The in-circuit side of the same file is in \<open>Circuit\<close>.
\<close>

unbundle bit_operations_syntax

subsection \<open>Round constants\<close>

type_synonym u128 = "128 word"

definition ROUNDS :: nat where
  "ROUNDS = 91"

definition LEAF_DOMAIN :: "64 word" where
  "LEAF_DOMAIN = 1"

definition NULLIFIER_DOMAIN :: "64 word" where
  "NULLIFIER_DOMAIN = 2"

text \<open>\<open>Fr::from\<close> on an unsigned machine integer.\<close>

definition fr_from :: "'a::len word \<Rightarrow> fr" where
  "fr_from w = fr_of_int (uint w)"

definition INITIAL_STATE :: u128 where
  "INITIAL_STATE = 0xDEADBEEFCAFEBABE0123456789ABCDEF"

text \<open>One turn of the loop: \<open>state ^= state << 13; state ^= state >> 7; state ^= state << 17\<close>.\<close>

definition xorshift :: "u128 \<Rightarrow> u128" where
  "xorshift state0 =
     (let state1 = state0 XOR push_bit 13 state0;
          state2 = state1 XOR drop_bit 7 state1
      in state2 XOR push_bit 17 state2)"

fun constants_loop :: "nat \<Rightarrow> u128 \<Rightarrow> fr list" where
  "constants_loop 0 state = []"
| "constants_loop (Suc n) state =
     (let state' = xorshift state in fr_from state' # constants_loop n state')"

definition round_constants :: "fr list" where
  "round_constants = constants_loop ROUNDS INITIAL_STATE"

subsection \<open>Permutation and hash\<close>

fun mimc :: "fr \<Rightarrow> fr \<Rightarrow> fr list \<Rightarrow> fr" where
  "mimc x k [] = x + k"
| "mimc x k (c # cs) =
     (let t = x + k + c;
          t2 = t * t;
          t4 = t2 * t2
      in mimc (t4 * t) k cs)"

definition hash2 :: "fr \<Rightarrow> fr \<Rightarrow> fr list \<Rightarrow> fr" where
  "hash2 l r constants = mimc l r constants + l + r"

subsection \<open>The round constants\<close>

lemma length_constants_loop [simp]: "length (constants_loop n state) = n"
  by (induction n arbitrary: state) (simp_all add: Let_def)

lemma length_round_constants [simp]: "length round_constants = 91"
  by (simp add: round_constants_def ROUNDS_def)

text \<open>
  A shift by a positive amount followed by XOR loses nothing: the lowest (highest) bits pass
  through, and every other bit is masked by one already known. So the schedule never collapses
  and, started from a nonzero state, never reaches zero.
\<close>

lemma xor_push_bit_inj:
  fixes x y :: "'a::len word"
  assumes "0 < k" and "x XOR push_bit k x = y XOR push_bit k y"
  shows "x = y"
proof (rule bit_word_eqI)
  fix n assume "n < LENGTH('a)"
  then show "bit x n \<longleftrightarrow> bit y n"
  proof (induction n rule: less_induct)
    case (less n)
    have "bit (x XOR push_bit k x) n \<longleftrightarrow> bit (y XOR push_bit k y) n" using assms(2) by simp
    moreover have "k \<le> n \<Longrightarrow> bit x (n - k) \<longleftrightarrow> bit y (n - k)"
      using less assms(1) by simp
    ultimately show ?case using less.prems by (auto simp: bit_simps)
  qed
qed

lemma xor_drop_bit_inj:
  fixes x y :: "'a::len word"
  assumes "0 < k" and "x XOR drop_bit k x = y XOR drop_bit k y"
  shows "x = y"
proof (rule bit_word_eqI)
  fix n assume "n < LENGTH('a)"
  then show "bit x n \<longleftrightarrow> bit y n"
  proof (induction "LENGTH('a) - n" arbitrary: n rule: less_induct)
    case less
    have "bit (x XOR drop_bit k x) n \<longleftrightarrow> bit (y XOR drop_bit k y) n" using assms(2) by simp
    moreover have "bit x (k + n) \<longleftrightarrow> bit y (k + n)"
    proof (cases "k + n < LENGTH('a)")
      case True
      with less assms(1) show ?thesis by simp
    next
      case False
      then show ?thesis using bit_imp_le_length not_less by blast
    qed
    ultimately show ?case using less.prems by (auto simp: bit_simps)
  qed
qed

lemma inj_xorshift: "inj xorshift"
proof (rule injI)
  fix x y assume "xorshift x = xorshift y"
  then have "(x XOR push_bit 13 x) XOR drop_bit 7 (x XOR push_bit 13 x)
      = (y XOR push_bit 13 y) XOR drop_bit 7 (y XOR push_bit 13 y)"
    unfolding xorshift_def Let_def by (rule xor_push_bit_inj [rotated]) simp
  then have "x XOR push_bit 13 x = y XOR push_bit 13 y"
    by (rule xor_drop_bit_inj [rotated]) simp
  then show "x = y" by (rule xor_push_bit_inj [rotated]) simp
qed

subsection \<open>MiMC under a fixed key is a permutation\<close>

fun mimc_inv :: "fr \<Rightarrow> fr \<Rightarrow> fr list \<Rightarrow> fr" where
  "mimc_inv y k [] = y - k"
| "mimc_inv y k (c # cs) = mimc_inv y k cs ^ FIFTH_ROOT - k - c"

lemma mimc_Cons_power: "mimc x k (c # cs) = mimc ((x + k + c) ^ 5) k cs"
  by (simp add: Let_def power_numeral eval_nat_numeral mult.assoc)

lemma mimc_inv_mimc: "mimc_inv (mimc x k cs) k cs = x"
proof (induction cs arbitrary: x)
  case (Cons c cs)
  have "mimc_inv (mimc x k (c # cs)) k (c # cs) = ((x + k + c) ^ 5) ^ FIFTH_ROOT - k - c"
    by (simp only: mimc_Cons_power mimc_inv.simps Cons.IH)
  then show ?case by (simp add: fr_fifth_root del: power_mult)
qed simp

lemma mimc_mimc_inv: "mimc (mimc_inv y k cs) k cs = y"
proof (induction cs)
  case (Cons c cs)
  have "mimc (mimc_inv y k (c # cs)) k (c # cs) = mimc ((mimc_inv y k cs ^ FIFTH_ROOT) ^ 5) k cs"
    by (simp add: mimc_Cons_power del: mimc.simps)
  then show ?case by (simp only: fr_fifth_power_of_root Cons.IH)
qed simp

text \<open>
  For every key, the native MiMC permutation with the program's 91 round constants is a
  bijection of the scalar field: no two inputs collide and every field element is reached. It
  rests on the primality of the field order and on 5 being invertible modulo the order minus one.
\<close>

theorem mimc_bijective: "bij (\<lambda>x. mimc x k round_constants)"
  by (rule o_bij [where g = "\<lambda>y. mimc_inv y k round_constants"])
    (simp_all add: fun_eq_iff mimc_inv_mimc mimc_mimc_inv)

end
