(* ===== verification/Circuit.thy ===== *)
theory Circuit
  imports Mimc
begin

text \<open>
  The membership circuit of \<open>src/crypto/circuit.rs\<close> and the in-circuit MiMC of
  \<open>src/crypto/mimc.rs\<close>. Both are written against the R1CS library (\<open>ark-relations\<close>,
  \<open>ark-r1cs-std\<close>), which is not part of the repository: its operations are the parameter
  \<open>constraint_api\<close> of every definition, and the locales \<open>constraint_laws\<close> (what a satisfied
  constraint system says) and \<open>proving_laws\<close> (what an honest prover's values do) state the
  documented behaviour the circuit relies on. \<open>Constraint_System\<close> gives a concrete rank-one
  constraint system and interprets both.
\<close>

subsection \<open>The constraint library as an interface\<close>

text \<open>
  \<open>AssignmentMissing\<close> is the library's error; \<open>IndexPanic\<close> is the panic of the slice index
  \<open>v[i]\<close> in the circuit's closures.
\<close>

datatype synthesis_error = AssignmentMissing | IndexPanic

text \<open>
  The operations of \<open>FpVar\<close> and \<open>Boolean\<close> the circuit calls, on a constraint system of type
  \<open>'s\<close>. A closure argument is passed as the result it would return: the library decides whether
  to look at it (it does not during setup).
\<close>

record ('v, 'b, 's) constraint_api =
  new_input :: "synthesis_error + fr \<Rightarrow> 's \<Rightarrow> synthesis_error + 'v \<times> 's"
  new_witness :: "synthesis_error + fr \<Rightarrow> 's \<Rightarrow> synthesis_error + 'v \<times> 's"
  new_bool :: "synthesis_error + bool \<Rightarrow> 's \<Rightarrow> synthesis_error + 'b \<times> 's"
  new_constant :: "fr \<Rightarrow> 'v"
  add_var :: "'v \<Rightarrow> 'v \<Rightarrow> 'v"
  mul_var :: "'v \<Rightarrow> 'v \<Rightarrow> 's \<Rightarrow> 'v \<times> 's"
  select_var :: "'b \<Rightarrow> 'v \<Rightarrow> 'v \<Rightarrow> 's \<Rightarrow> synthesis_error + 'v \<times> 's"
  enforce_equal :: "'v \<Rightarrow> 'v \<Rightarrow> 's \<Rightarrow> synthesis_error + 's"

subsection \<open>The hash gadget\<close>

fun mimc_gadget :: "('v, 'b, 's, 'z) constraint_api_scheme \<Rightarrow> 'v \<Rightarrow> 'v \<Rightarrow> fr list \<Rightarrow> 's \<Rightarrow> 'v \<times> 's" where
  "mimc_gadget L x k [] s = (add_var L x k, s)"
| "mimc_gadget L x k (c # cs) s =
     (let t = add_var L (add_var L x k) (new_constant L c);
          (t2, s) = mul_var L t t s;
          (t4, s) = mul_var L t2 t2 s;
          (x, s) = mul_var L t4 t s
      in mimc_gadget L x k cs s)"

definition hash2_gadget :: "('v, 'b, 's, 'z) constraint_api_scheme \<Rightarrow> 'v \<Rightarrow> 'v \<Rightarrow> fr list \<Rightarrow> 's \<Rightarrow> 'v \<times> 's" where
  "hash2_gadget L l r constants s =
     (let (h, s) = mimc_gadget L l r constants s
      in (add_var L (add_var L h l) r, s))"

subsection \<open>The circuit\<close>

definition DEPTH :: nat where
  "DEPTH = 4"

record merkle_circuit =
  mc_constants :: "fr list"
  mc_root :: "fr option"
  mc_nullifier :: "fr option"
  mc_addr :: "fr option"
  mc_secret :: "fr option"
  mc_path_elements :: "fr list option"
  mc_path_indices :: "bool list option"

definition empty_circuit :: "fr list \<Rightarrow> merkle_circuit" where
  "empty_circuit constants =
     \<lparr> mc_constants = constants, mc_root = None, mc_nullifier = None, mc_addr = None,
       mc_secret = None, mc_path_elements = None, mc_path_indices = None \<rparr>"

text \<open>\<open>v.as_ref().map(|v| v[i]).ok_or(AssignmentMissing)\<close>: the index panics out of range.\<close>

definition index_or_missing :: "'a list option \<Rightarrow> nat \<Rightarrow> synthesis_error + 'a" where
  "index_or_missing m i =
     (case m of None \<Rightarrow> Inl AssignmentMissing
      | Some v \<Rightarrow> if i < length v then Inr (v ! i) else Inl IndexPanic)"

text \<open>One turn of \<open>for i in 0..DEPTH\<close>.\<close>

definition path_step ::
  "('v, 'b, 's, 'z) constraint_api_scheme \<Rightarrow> merkle_circuit \<Rightarrow> nat \<Rightarrow> 'v \<Rightarrow> 's \<Rightarrow> synthesis_error + 'v \<times> 's" where
  "path_step L circ i cur s =
     try_r (new_witness L (index_or_missing (mc_path_elements circ) i) s) (\<lambda>(sib, s).
     try_r (new_bool L (index_or_missing (mc_path_indices circ) i) s) (\<lambda>(b, s).
     try_r (select_var L b sib cur s) (\<lambda>(left, s).
     try_r (select_var L b cur sib s) (\<lambda>(right, s).
     Inr (hash2_gadget L left right (mc_constants circ) s)))))"

fun path_loop ::
  "('v, 'b, 's, 'z) constraint_api_scheme \<Rightarrow> merkle_circuit \<Rightarrow> nat list \<Rightarrow> 'v \<Rightarrow> 's \<Rightarrow> synthesis_error + 'v \<times> 's" where
  "path_loop L circ [] cur s = Inr (cur, s)"
| "path_loop L circ (i # is) cur s =
     try_r (path_step L circ i cur s) (\<lambda>(cur, s). path_loop L circ is cur s)"

definition generate_constraints ::
  "('v, 'b, 's, 'z) constraint_api_scheme \<Rightarrow> merkle_circuit \<Rightarrow> 's \<Rightarrow> synthesis_error + 's" where
  "generate_constraints L circ s =
     try_r (new_input L (ok_or AssignmentMissing (mc_root circ)) s) (\<lambda>(root, s).
     try_r (new_input L (ok_or AssignmentMissing (mc_nullifier circ)) s) (\<lambda>(nullifier, s).
     try_r (new_input L (ok_or AssignmentMissing (mc_addr circ)) s) (\<lambda>(addr, s).
     let (addr_bound, s) = mul_var L addr addr s in
     try_r (new_witness L (ok_or AssignmentMissing (mc_secret circ)) s) (\<lambda>(secret, s).
     let leaf_domain = new_constant L (fr_from LEAF_DOMAIN);
         (cur, s) = hash2_gadget L secret leaf_domain (mc_constants circ) s in
     try_r (path_loop L circ [0..<DEPTH] cur s) (\<lambda>(cur, s).
     try_r (enforce_equal L cur root s) (\<lambda>s.
     let null_domain = new_constant L (fr_from NULLIFIER_DOMAIN);
         (null_calc, s) = hash2_gadget L secret null_domain (mc_constants circ) s in
     enforce_equal L null_calc nullifier s))))))"

subsection \<open>What the circuit is meant to say\<close>

text \<open>
  The fold of a Merkle path: at each level the sibling and whether the current node is the right
  child.
\<close>

fun fold_path :: "fr list \<Rightarrow> fr \<Rightarrow> (fr \<times> bool) list \<Rightarrow> fr" where
  "fold_path constants cur [] = cur"
| "fold_path constants cur ((sib, is_right) # path) =
     fold_path constants
       (if is_right then hash2 sib cur constants else hash2 cur sib constants) path"

text \<open>
  The statement proved in zero knowledge: some secret's commitment folds up to the root along a
  path of the circuit's depth, and the nullifier is the secret's.
\<close>

definition membership_statement :: "fr list \<Rightarrow> fr \<Rightarrow> fr \<Rightarrow> fr \<Rightarrow> (fr \<times> bool) list \<Rightarrow> bool" where
  "membership_statement constants root nullifier secret path \<longleftrightarrow>
     length path = DEPTH \<and>
     fold_path constants (hash2 secret (fr_from LEAF_DOMAIN) constants) path = root \<and>
     hash2 secret (fr_from NULLIFIER_DOMAIN) constants = nullifier"

subsection \<open>Soundness from the laws of the constraint library\<close>

locale constraint_laws =
  fixes L :: "('v, 'b, 's, 'z) constraint_api_scheme"
    and holds :: "'s \<Rightarrow> 'a \<Rightarrow> bool"
    and val :: "'a \<Rightarrow> 'v \<Rightarrow> fr"
    and is_bit :: "'a \<Rightarrow> 'b \<Rightarrow> bool"
    and bval :: "'a \<Rightarrow> 'b \<Rightarrow> bool"
    and public :: "'a \<Rightarrow> nat \<Rightarrow> fr"
    and inputs :: "'s \<Rightarrow> nat"
  assumes input_law:
      "new_input L r s = Inr (v, s') \<Longrightarrow> inputs s' = Suc (inputs s) \<and>
         (holds s' a \<longrightarrow> holds s a \<and> val a v = public a (inputs s))"
    and witness_law:
      "new_witness L r s = Inr (v, s') \<Longrightarrow> inputs s' = inputs s \<and> (holds s' a \<longrightarrow> holds s a)"
    and bool_law:
      "new_bool L rb s = Inr (b, s') \<Longrightarrow> inputs s' = inputs s \<and>
         (holds s' a \<longrightarrow> holds s a \<and> is_bit a b)"
    and constant_law: "val a (new_constant L c) = c"
    and add_law: "val a (add_var L x y) = val a x + val a y"
    and mul_law:
      "mul_var L x y s = (z, s') \<Longrightarrow> inputs s' = inputs s \<and>
         (holds s' a \<longrightarrow> holds s a \<and> val a z = val a x * val a y)"
    and select_law:
      "select_var L b x y s = Inr (z, s') \<Longrightarrow> holds s' a \<Longrightarrow>
         holds s a \<and> (is_bit a b \<longrightarrow> val a z = (if bval a b then val a x else val a y))"
    and equal_law:
      "enforce_equal L x y s = Inr s' \<Longrightarrow> holds s' a \<Longrightarrow> holds s a \<and> val a x = val a y"
begin

lemma mimc_gadget_sound:
  "mimc_gadget L x k cs s = (z, s') \<Longrightarrow> holds s' a \<Longrightarrow>
     holds s a \<and> val a z = mimc (val a x) (val a k) cs"
proof (induction cs arbitrary: x s)
  case Nil
  then show ?case by (auto simp: add_law)
next
  case (Cons c cs)
  define t where "t = add_var L (add_var L x k) (new_constant L c)"
  obtain t2 s2 where m2: "mul_var L t t s = (t2, s2)" by fastforce
  obtain t4 s4 where m4: "mul_var L t2 t2 s2 = (t4, s4)" by fastforce
  obtain x' s5 where m5: "mul_var L t4 t s4 = (x', s5)" by fastforce
  have "mimc_gadget L x' k cs s5 = (z, s')"
    using Cons.prems(1) by (simp add: t_def [symmetric] m2 m4 m5 Let_def)
  then have IH: "holds s5 a" "val a z = mimc (val a x') (val a k) cs"
    using Cons.IH Cons.prems(2) by blast+
  have "holds s a" "val a x' = (val a t * val a t) * (val a t * val a t) * val a t"
    using mul_law [OF m5] mul_law [OF m4] mul_law [OF m2] IH(1) by auto
  then show ?case by (simp add: IH(2) t_def add_law constant_law Let_def)
qed

lemma hash2_gadget_sound:
  assumes "hash2_gadget L l r cs s = (z, s')" and "holds s' a"
  shows "holds s a \<and> val a z = hash2 (val a l) (val a r) cs"
proof -
  obtain h s1 where h: "mimc_gadget L l r cs s = (h, s1)" by fastforce
  with assms(1) have "z = add_var L (add_var L h l) r" "s1 = s'"
    by (simp_all add: hash2_gadget_def)
  with mimc_gadget_sound [OF h] assms(2) show ?thesis by (simp add: hash2_def add_law)
qed

lemma path_step_sound:
  assumes "path_step L circ i cur s = Inr (cur', s')" and "holds s' a"
  shows "holds s a \<and> (\<exists>sib is_right.
    val a cur' = fold_path (mc_constants circ) (val a cur) [(sib, is_right)])"
proof -
  obtain sib s1 b s2 l s3 r s4 where steps:
    "new_witness L (index_or_missing (mc_path_elements circ) i) s = Inr (sib, s1)"
    "new_bool L (index_or_missing (mc_path_indices circ) i) s1 = Inr (b, s2)"
    "select_var L b sib cur s2 = Inr (l, s3)" "select_var L b cur sib s3 = Inr (r, s4)"
    "hash2_gadget L l r (mc_constants circ) s4 = (cur', s')"
    using assms(1) by (auto simp: path_step_def result_iffs)
  have s4: "holds s4 a" "val a cur' = hash2 (val a l) (val a r) (mc_constants circ)"
    using hash2_gadget_sound [OF steps(5) assms(2)] by simp_all
  have s3: "holds s3 a" "is_bit a b \<Longrightarrow> val a r = (if bval a b then val a cur else val a sib)"
    using select_law [OF steps(4) s4(1)] by simp_all
  have s2: "holds s2 a" "is_bit a b \<Longrightarrow> val a l = (if bval a b then val a sib else val a cur)"
    using select_law [OF steps(3) s3(1)] by simp_all
  have "holds s a" "is_bit a b" using s2(1) bool_law [OF steps(2)] witness_law [OF steps(1)] by blast+
  moreover from this have "val a cur' = fold_path (mc_constants circ) (val a cur) [(val a sib, bval a b)]"
    by (simp add: s4(2) s3(2) s2(2))
  ultimately show ?thesis by blast
qed

lemma path_loop_sound:
  "path_loop L circ is cur s = Inr (cur', s') \<Longrightarrow> holds s' a \<Longrightarrow>
     holds s a \<and> (\<exists>path. length path = length is \<and>
       val a cur' = fold_path (mc_constants circ) (val a cur) path)"
proof (induction "is" arbitrary: cur s)
  case Nil
  then show ?case by auto
next
  case (Cons i "is")
  then obtain c1 s1 where st: "path_step L circ i cur s = Inr (c1, s1)"
    and rest: "path_loop L circ is c1 s1 = Inr (cur', s')"
    by (auto simp: result_iffs)
  from Cons.IH [OF rest Cons.prems(2)] obtain path where
    p: "holds s1 a" "length path = length is"
      "val a cur' = fold_path (mc_constants circ) (val a c1) path" by blast
  from path_step_sound [OF st p(1)] obtain sib d where
    "holds s a" "val a c1 = fold_path (mc_constants circ) (val a cur) [(sib, d)]" by blast
  with p show ?case
    by (intro conjI exI [of _ "(sib, d) # path"]) simp_all
qed

lemma generate_constraints_sound:
  assumes gen: "generate_constraints L circ s = Inr s'" and s: "inputs s = 0" and a: "holds s' a"
  shows "\<exists>secret path.
    membership_statement (mc_constants circ) (public a 0) (public a 1) secret path"
proof -
  obtain root s1 nullifier s2 addr s3 ab s4 secret s5 c0 s6 c1 s7 s8 nc s9 where steps:
    "new_input L (ok_or AssignmentMissing (mc_root circ)) s = Inr (root, s1)"
    "new_input L (ok_or AssignmentMissing (mc_nullifier circ)) s1 = Inr (nullifier, s2)"
    "new_input L (ok_or AssignmentMissing (mc_addr circ)) s2 = Inr (addr, s3)"
    "mul_var L addr addr s3 = (ab, s4)"
    "new_witness L (ok_or AssignmentMissing (mc_secret circ)) s4 = Inr (secret, s5)"
    "hash2_gadget L secret (new_constant L (fr_from LEAF_DOMAIN)) (mc_constants circ) s5 = (c0, s6)"
    "path_loop L circ [0..<DEPTH] c0 s6 = Inr (c1, s7)"
    "enforce_equal L c1 root s7 = Inr s8"
    "hash2_gadget L secret (new_constant L (fr_from NULLIFIER_DOMAIN)) (mc_constants circ) s8 = (nc, s9)"
    "enforce_equal L nc nullifier s9 = Inr s'"
    using gen unfolding generate_constraints_def Let_def try_r_pair_iff try_r_Inr_iff case_prod_eq_iff
    by blast
  have s9: "holds s9 a" "val a nc = val a nullifier"
    using equal_law [OF steps(10) a] by simp_all
  have s8: "holds s8 a" "val a nc = hash2 (val a secret) (fr_from NULLIFIER_DOMAIN) (mc_constants circ)"
    using hash2_gadget_sound [OF steps(9) s9(1)] by (simp_all add: constant_law)
  have s7: "holds s7 a" "val a c1 = val a root" using equal_law [OF steps(8) s8(1)] by simp_all
  obtain path where s6: "holds s6 a" "length path = DEPTH"
      "val a c1 = fold_path (mc_constants circ) (val a c0) path"
    using path_loop_sound [OF steps(7) s7(1)] by auto
  have s5: "holds s5 a" "val a c0 = hash2 (val a secret) (fr_from LEAF_DOMAIN) (mc_constants circ)"
    using hash2_gadget_sound [OF steps(6) s6(1)] by (simp_all add: constant_law)
  have "holds s2 a" using s5(1) witness_law [OF steps(5)] mul_law [OF steps(4)] input_law [OF steps(3)]
    by blast
  then have pub: "val a nullifier = public a 1" "val a root = public a 0"
    using input_law [OF steps(2)] input_law [OF steps(1)] s by auto
  have "membership_statement (mc_constants circ) (public a 0) (public a 1) (val a secret) path"
    using s9(2) s8(2) s7(2) s6(2,3) s5(2) pub by (simp add: membership_statement_def)
  then show ?thesis by blast
qed

end

subsection \<open>Completeness from the laws of an honest prover\<close>

text \<open>
  \<open>honest s\<close>: the values recorded so far satisfy the constraints recorded so far.
  \<open>knows s v x\<close>: the variable \<open>v\<close> has the value \<open>x\<close> in \<open>s\<close>. \<open>grows\<close>: later states of the same
  synthesis.
\<close>

locale proving_laws =
  fixes L :: "('v, 'b, 's, 'z) constraint_api_scheme"
    and honest :: "'s \<Rightarrow> bool"
    and knows :: "'s \<Rightarrow> 'v \<Rightarrow> fr \<Rightarrow> bool"
    and knows_bool :: "'s \<Rightarrow> 'b \<Rightarrow> bool \<Rightarrow> bool"
    and grows :: "'s \<Rightarrow> 's \<Rightarrow> bool"
    and public_values :: "'s \<Rightarrow> fr list"
  assumes grows_refl: "grows s s"
    and grows_trans: "grows s t \<Longrightarrow> grows t u \<Longrightarrow> grows s u"
    and knows_mono: "knows s v x \<Longrightarrow> grows s t \<Longrightarrow> knows t v x"
    and knows_bool_mono: "knows_bool s b d \<Longrightarrow> grows s t \<Longrightarrow> knows_bool t b d"
    and prove_input:
      "honest s \<Longrightarrow> \<exists>v t. new_input L (Inr x) s = Inr (v, t) \<and> honest t \<and> grows s t \<and>
         knows t v x \<and> public_values t = public_values s @ [x]"
    and prove_witness:
      "honest s \<Longrightarrow> \<exists>v t. new_witness L (Inr x) s = Inr (v, t) \<and> honest t \<and> grows s t \<and>
         knows t v x \<and> public_values t = public_values s"
    and prove_bool:
      "honest s \<Longrightarrow> \<exists>b t. new_bool L (Inr d) s = Inr (b, t) \<and> honest t \<and> grows s t \<and>
         knows_bool t b d \<and> public_values t = public_values s"
    and prove_constant: "knows s (new_constant L c) c"
    and prove_add: "knows s v x \<Longrightarrow> knows s w y \<Longrightarrow> knows s (add_var L v w) (x + y)"
    and prove_mul:
      "honest s \<Longrightarrow> knows s v x \<Longrightarrow> knows s w y \<Longrightarrow>
         \<exists>z t. mul_var L v w s = (z, t) \<and> honest t \<and> grows s t \<and> knows t z (x * y) \<and>
         public_values t = public_values s"
    and prove_select:
      "honest s \<Longrightarrow> knows_bool s b d \<Longrightarrow> knows s v x \<Longrightarrow> knows s w y \<Longrightarrow>
         \<exists>z t. select_var L b v w s = Inr (z, t) \<and> honest t \<and> grows s t \<and>
         knows t z (if d then x else y) \<and> public_values t = public_values s"
    and prove_equal:
      "honest s \<Longrightarrow> knows s v x \<Longrightarrow> knows s w x \<Longrightarrow>
         \<exists>t. enforce_equal L v w s = Inr t \<and> honest t \<and> grows s t \<and> public_values t = public_values s"
    and prove_missing:
      "honest s \<Longrightarrow> new_input L (Inl e) s = Inl e"
      "honest s \<Longrightarrow> new_witness L (Inl e) s = Inl e"
      "honest s \<Longrightarrow> new_bool L (Inl e) s = Inl e"
begin

lemma mimc_gadget_complete:
  "honest s \<Longrightarrow> knows s x u \<Longrightarrow> knows s k w \<Longrightarrow>
     \<exists>z t. mimc_gadget L x k cs s = (z, t) \<and> honest t \<and> grows s t \<and> knows t z (mimc u w cs) \<and>
       public_values t = public_values s"
proof (induction cs arbitrary: x u s)
  case Nil
  then show ?case by (simp add: grows_refl prove_add)
next
  case (Cons c cs)
  define v where "v = add_var L (add_var L x k) (new_constant L c)"
  have v: "knows s v (u + w + c)"
    unfolding v_def using Cons.prems by (intro prove_add prove_constant)
  obtain v2 s2 where 2: "mul_var L v v s = (v2, s2)" "honest s2" "grows s s2"
      "knows s2 v2 ((u + w + c) * (u + w + c))" "public_values s2 = public_values s"
    using prove_mul [OF Cons.prems(1) v v] by blast
  obtain v4 s4 where 4: "mul_var L v2 v2 s2 = (v4, s4)" "honest s4" "grows s2 s4"
      "knows s4 v4 ((u + w + c) * (u + w + c) * ((u + w + c) * (u + w + c)))"
      "public_values s4 = public_values s2"
    using prove_mul [OF 2(2,4,4)] by blast
  have g: "grows s s4" using 2(3) 4(3) by (rule grows_trans)
  obtain v5 s5 where 5: "mul_var L v4 v s4 = (v5, s5)" "honest s5" "grows s4 s5"
      "knows s5 v5 ((u + w + c) * (u + w + c) * ((u + w + c) * (u + w + c)) * (u + w + c))"
      "public_values s5 = public_values s4"
    using prove_mul [OF 4(2,4) knows_mono [OF v g]] by blast
  have g5: "grows s s5" using g 5(3) by (rule grows_trans)
  from Cons.IH [OF 5(2,4) knows_mono [OF Cons.prems(3) g5]] g5
  show ?case
    by (auto simp: v_def [symmetric] 2(1) 4(1) 5(1) 2(5) 4(5) 5(5) Let_def intro: grows_trans)
qed

lemma hash2_gadget_complete:
  assumes "honest s" "knows s l u" "knows s r w"
  shows "\<exists>z t. hash2_gadget L l r cs s = (z, t) \<and> honest t \<and> grows s t \<and>
    knows t z (hash2 u w cs) \<and> public_values t = public_values s"
proof -
  obtain h t where h: "mimc_gadget L l r cs s = (h, t)" "honest t" "grows s t"
      "knows t h (mimc u w cs)" "public_values t = public_values s"
    using mimc_gadget_complete [OF assms] by blast
  then have "knows t (add_var L (add_var L h l) r) (mimc u w cs + u + w)"
    using assms(2,3) knows_mono by (intro prove_add) blast+
  with h show ?thesis by (simp add: hash2_gadget_def hash2_def)
qed

lemma path_step_complete:
  assumes h: "honest s" "knows s cur u"
    and e: "index_or_missing (mc_path_elements circ) i = Inr sib"
    and d: "index_or_missing (mc_path_indices circ) i = Inr d"
  shows "\<exists>z t. path_step L circ i cur s = Inr (z, t) \<and> honest t \<and> grows s t \<and>
    knows t z (fold_path (mc_constants circ) u [(sib, d)]) \<and> public_values t = public_values s"
proof -
  obtain v s1 where 1: "new_witness L (Inr sib) s = Inr (v, s1)" "honest s1" "grows s s1"
      "knows s1 v sib" "public_values s1 = public_values s"
    using prove_witness [OF h(1)] by blast
  obtain b s2 where 2: "new_bool L (Inr d) s1 = Inr (b, s2)" "honest s2" "grows s1 s2"
      "knows_bool s2 b d" "public_values s2 = public_values s1"
    using prove_bool [OF 1(2)] by blast
  have g2: "grows s s2" using 1(3) 2(3) by (rule grows_trans)
  have k2: "knows s2 v sib" "knows s2 cur u"
    using knows_mono [OF 1(4) 2(3)] knows_mono [OF h(2) g2] .
  obtain l s3 where 3: "select_var L b v cur s2 = Inr (l, s3)" "honest s3" "grows s2 s3"
      "knows s3 l (if d then sib else u)" "public_values s3 = public_values s2"
    using prove_select [OF 2(2,4) k2] by blast
  have k3: "knows_bool s3 b d" "knows s3 cur u" "knows s3 v sib"
    using knows_bool_mono [OF 2(4) 3(3)] knows_mono [OF k2(2) 3(3)] knows_mono [OF k2(1) 3(3)] .
  obtain r s4 where 4: "select_var L b cur v s3 = Inr (r, s4)" "honest s4" "grows s3 s4"
      "knows s4 r (if d then u else sib)" "public_values s4 = public_values s3"
    using prove_select [OF 3(2) k3] by blast
  obtain z t where 5: "hash2_gadget L l r (mc_constants circ) s4 = (z, t)" "honest t" "grows s4 t"
      "knows t z (hash2 (if d then sib else u) (if d then u else sib) (mc_constants circ))"
      "public_values t = public_values s4"
    using hash2_gadget_complete [OF 4(2) knows_mono [OF 3(4) 4(3)] 4(4)] by blast
  have "grows s t" using g2 3(3) 4(3) 5(3) by (blast intro: grows_trans)
  then show ?thesis
    using 5(2,4) by (simp add: path_step_def e d 1(1,5) 2(1,5) 3(1,5) 4(1,5) 5(1,5) if_distrib split: if_splits)
qed

lemma path_loop_complete:
  assumes e: "mc_path_elements circ = Some es" and d: "mc_path_indices circ = Some ds"
  shows "honest s \<Longrightarrow> knows s cur u \<Longrightarrow> \<forall>i \<in> set is. i < length es \<and> i < length ds \<Longrightarrow>
     \<exists>z t. path_loop L circ is cur s = Inr (z, t) \<and> honest t \<and> grows s t \<and>
       knows t z (fold_path (mc_constants circ) u (map (\<lambda>i. (es ! i, ds ! i)) is)) \<and>
       public_values t = public_values s"
proof (induction "is" arbitrary: cur u s)
  case Nil
  then show ?case by (simp add: grows_refl)
next
  case (Cons i "is")
  have idx: "index_or_missing (mc_path_elements circ) i = Inr (es ! i)"
    "index_or_missing (mc_path_indices circ) i = Inr (ds ! i)"
    using Cons.prems(3) by (simp_all add: index_or_missing_def e d)
  obtain c t1 where 1: "path_step L circ i cur s = Inr (c, t1)" "honest t1" "grows s t1"
      "knows t1 c (fold_path (mc_constants circ) u [(es ! i, ds ! i)])"
      "public_values t1 = public_values s"
    using path_step_complete [OF Cons.prems(1,2) idx] by blast
  have "\<forall>i \<in> set is. i < length es \<and> i < length ds" using Cons.prems(3) by simp
  from Cons.IH [OF 1(2,4) this] 1(3) show ?case by (auto simp: 1(1,5) intro: grows_trans)
qed

lemma generate_constraints_complete:
  assumes st: "membership_statement (mc_constants circ) root nullifier secret (zip es ds)"
    and len: "length es = DEPTH" "length ds = DEPTH"
    and circ: "mc_root circ = Some root" "mc_nullifier circ = Some nullifier"
      "mc_addr circ = Some addr" "mc_secret circ = Some secret"
      "mc_path_elements circ = Some es" "mc_path_indices circ = Some ds"
    and h: "honest s"
  shows "\<exists>t. generate_constraints L circ s = Inr t \<and> honest t \<and>
    public_values t = public_values s @ [root, nullifier, addr]"
proof -
  let ?C = "mc_constants circ"
  obtain vr s1 where 1: "new_input L (Inr root) s = Inr (vr, s1)" "honest s1" "grows s s1"
      "knows s1 vr root" "public_values s1 = public_values s @ [root]"
    using prove_input [OF h] by blast
  obtain vn s2 where 2: "new_input L (Inr nullifier) s1 = Inr (vn, s2)" "honest s2" "grows s1 s2"
      "knows s2 vn nullifier" "public_values s2 = public_values s1 @ [nullifier]"
    using prove_input [OF 1(2)] by blast
  obtain va s3 where 3: "new_input L (Inr addr) s2 = Inr (va, s3)" "honest s3" "grows s2 s3"
      "knows s3 va addr" "public_values s3 = public_values s2 @ [addr]"
    using prove_input [OF 2(2)] by blast
  obtain ab s4 where 4: "mul_var L va va s3 = (ab, s4)" "honest s4" "grows s3 s4"
      "public_values s4 = public_values s3"
    using prove_mul [OF 3(2,4,4)] by blast
  obtain vs s5 where 5: "new_witness L (Inr secret) s4 = Inr (vs, s5)" "honest s5" "grows s4 s5"
      "knows s5 vs secret" "public_values s5 = public_values s4"
    using prove_witness [OF 4(2)] by blast
  obtain c0 s6 where 6: "hash2_gadget L vs (new_constant L (fr_from LEAF_DOMAIN)) ?C s5 = (c0, s6)"
      "honest s6" "grows s5 s6" "knows s6 c0 (hash2 secret (fr_from LEAF_DOMAIN) ?C)"
      "public_values s6 = public_values s5"
    using hash2_gadget_complete [OF 5(2,4) prove_constant] by blast
  have idx: "map (\<lambda>i. (es ! i, ds ! i)) [0..<DEPTH] = zip es ds"
    using len by (auto simp: list_eq_iff_nth_eq)
  obtain c1 s7 where 7: "path_loop L circ [0..<DEPTH] c0 s6 = Inr (c1, s7)" "honest s7"
      "grows s6 s7" "knows s7 c1 root" "public_values s7 = public_values s6"
    using path_loop_complete [OF circ(5,6) 6(2,4), of "[0..<DEPTH]"] len st
    by (auto simp: idx membership_statement_def)
  have g: "grows s1 s7" "grows s2 s7" "grows s5 s7"
    using 2(3) 3(3) 4(3) 5(3) 6(3) 7(3) by (blast intro: grows_trans)+
  obtain s8 where 8: "enforce_equal L c1 vr s7 = Inr s8" "honest s8" "public_values s8 = public_values s7"
    "grows s7 s8"
    using prove_equal [OF 7(2,4) knows_mono [OF 1(4) g(1)]] by blast
  have k8: "knows s8 vs secret" "knows s8 vn nullifier"
    using 5(4) 2(4) g 8(4) by (blast intro: knows_mono grows_trans)+
  obtain nc s9 where 9: "hash2_gadget L vs (new_constant L (fr_from NULLIFIER_DOMAIN)) ?C s8 = (nc, s9)"
      "honest s9" "grows s8 s9" "knows s9 nc (hash2 secret (fr_from NULLIFIER_DOMAIN) ?C)"
      "public_values s9 = public_values s8"
    using hash2_gadget_complete [OF 8(2) k8(1) prove_constant] by blast
  have "knows s9 nc nullifier" using 9(4) st by (simp add: membership_statement_def)
  then obtain t where "enforce_equal L nc vn s9 = Inr t" "honest t" "public_values t = public_values s9"
    using prove_equal [OF 9(2) _ knows_mono [OF k8(2) 9(3)]] by blast
  then show ?thesis
    by (simp add: generate_constraints_def circ Let_def 1(1,5) 2(1,5) 3(1,5) 4(1,4) 5(1,5) 6(1,5)
        7(1,5) 8(1,3) 9(1,5))
qed

lemma generate_constraints_missing_root:
  "honest s \<Longrightarrow> mc_root circ = None \<Longrightarrow> generate_constraints L circ s = Inl AssignmentMissing"
  by (simp add: generate_constraints_def prove_missing)

end

subsection \<open>Setup sees the same constraints as proving\<close>

text \<open>
  \<open>mirrors s t\<close>: \<open>s\<close> is a synthesis during setup that has recorded the same constraints as the
  synthesis \<open>t\<close> of a prover. During setup the closures are never called, so their results do not
  matter and cannot fail.
\<close>

locale setup_laws =
  fixes L :: "('v, 'b, 's, 'z) constraint_api_scheme"
    and mirrors :: "'s \<Rightarrow> 's \<Rightarrow> bool"
  assumes mirror_input:
      "mirrors s t \<Longrightarrow> new_input L r t = Inr (v, t') \<Longrightarrow>
         \<exists>s'. new_input L r' s = Inr (v, s') \<and> mirrors s' t'"
    and mirror_witness:
      "mirrors s t \<Longrightarrow> new_witness L r t = Inr (v, t') \<Longrightarrow>
         \<exists>s'. new_witness L r' s = Inr (v, s') \<and> mirrors s' t'"
    and mirror_bool:
      "mirrors s t \<Longrightarrow> new_bool L rb t = Inr (b, t') \<Longrightarrow>
         \<exists>s'. new_bool L rb' s = Inr (b, s') \<and> mirrors s' t'"
    and mirror_mul:
      "mirrors s t \<Longrightarrow> mul_var L x y t = (z, t') \<Longrightarrow>
         \<exists>s'. mul_var L x y s = (z, s') \<and> mirrors s' t'"
    and mirror_select:
      "mirrors s t \<Longrightarrow> select_var L b x y t = Inr (z, t') \<Longrightarrow>
         \<exists>s'. select_var L b x y s = Inr (z, s') \<and> mirrors s' t'"
    and mirror_equal:
      "mirrors s t \<Longrightarrow> enforce_equal L x y t = Inr t' \<Longrightarrow>
         \<exists>s'. enforce_equal L x y s = Inr s' \<and> mirrors s' t'"
begin

lemma mirror_mimc:
  "mirrors s t \<Longrightarrow> mimc_gadget L x k cs t = (z, t') \<Longrightarrow>
     \<exists>s'. mimc_gadget L x k cs s = (z, s') \<and> mirrors s' t'"
proof (induction cs arbitrary: x s t)
  case Nil
  then show ?case by simp
next
  case (Cons c cs)
  define v where "v = add_var L (add_var L x k) (new_constant L c)"
  obtain v2 t2 v4 t4 v5 t5 where t:
    "mul_var L v v t = (v2, t2)" "mul_var L v2 v2 t2 = (v4, t4)" "mul_var L v4 v t4 = (v5, t5)"
    "mimc_gadget L v5 k cs t5 = (z, t')"
    using Cons.prems(2) by (auto simp: v_def [symmetric] Let_def split: prod.splits)
  obtain s2 where 2: "mul_var L v v s = (v2, s2)" "mirrors s2 t2"
    using mirror_mul [OF Cons.prems(1) t(1)] by blast
  obtain s4 where 4: "mul_var L v2 v2 s2 = (v4, s4)" "mirrors s4 t4"
    using mirror_mul [OF 2(2) t(2)] by blast
  obtain s5 where 5: "mul_var L v4 v s4 = (v5, s5)" "mirrors s5 t5"
    using mirror_mul [OF 4(2) t(3)] by blast
  from Cons.IH [OF 5(2) t(4)] show ?case
    by (simp add: v_def [symmetric] Let_def 2(1) 4(1) 5(1))
qed

lemma mirror_hash2:
  "mirrors s t \<Longrightarrow> hash2_gadget L l r cs t = (z, t') \<Longrightarrow>
     \<exists>s'. hash2_gadget L l r cs s = (z, s') \<and> mirrors s' t'"
  by (auto simp: hash2_gadget_def split: prod.splits dest: mirror_mimc)

lemma mirror_path_step:
  assumes "mirrors s t" "path_step L circ i cur t = Inr (z, t')" "mc_constants circ' = mc_constants circ"
  shows "\<exists>s'. path_step L circ' i cur s = Inr (z, s') \<and> mirrors s' t'"
proof -
  obtain sib t1 b t2 l t3 r t4 where t:
    "new_witness L (index_or_missing (mc_path_elements circ) i) t = Inr (sib, t1)"
    "new_bool L (index_or_missing (mc_path_indices circ) i) t1 = Inr (b, t2)"
    "select_var L b sib cur t2 = Inr (l, t3)" "select_var L b cur sib t3 = Inr (r, t4)"
    "hash2_gadget L l r (mc_constants circ) t4 = (z, t')"
    using assms(2) by (auto simp: path_step_def result_iffs)
  obtain s1 where 1: "new_witness L (index_or_missing (mc_path_elements circ') i) s = Inr (sib, s1)"
      "mirrors s1 t1" using mirror_witness [OF assms(1) t(1)] by blast
  obtain s2 where 2: "new_bool L (index_or_missing (mc_path_indices circ') i) s1 = Inr (b, s2)"
      "mirrors s2 t2" using mirror_bool [OF 1(2) t(2)] by blast
  obtain s3 where 3: "select_var L b sib cur s2 = Inr (l, s3)" "mirrors s3 t3"
    using mirror_select [OF 2(2) t(3)] by blast
  obtain s4 where 4: "select_var L b cur sib s3 = Inr (r, s4)" "mirrors s4 t4"
    using mirror_select [OF 3(2) t(4)] by blast
  from mirror_hash2 [OF 4(2) t(5)] show ?thesis
    by (simp add: path_step_def 1(1) 2(1) 3(1) 4(1) assms(3))
qed

lemma mirror_path_loop:
  "mirrors s t \<Longrightarrow> path_loop L circ is cur t = Inr (z, t') \<Longrightarrow> mc_constants circ' = mc_constants circ \<Longrightarrow>
     \<exists>s'. path_loop L circ' is cur s = Inr (z, s') \<and> mirrors s' t'"
proof (induction "is" arbitrary: cur s t)
  case (Cons i "is")
  then obtain c t1 where "path_step L circ i cur t = Inr (c, t1)" "path_loop L circ is c t1 = Inr (z, t')"
    by (auto simp: result_iffs)
  with Cons show ?case by (fastforce dest: mirror_path_step)
qed simp

lemma mirror_generate_constraints:
  assumes m: "mirrors s t" and gen: "generate_constraints L circ t = Inr t'"
    and C: "mc_constants circ' = mc_constants circ"
  shows "\<exists>s'. generate_constraints L circ' s = Inr s' \<and> mirrors s' t'"
proof -
  obtain root t1 nullifier t2 addr t3 ab t4 secret t5 c0 t6 c1 t7 t8 nc t9 where t:
    "new_input L (ok_or AssignmentMissing (mc_root circ)) t = Inr (root, t1)"
    "new_input L (ok_or AssignmentMissing (mc_nullifier circ)) t1 = Inr (nullifier, t2)"
    "new_input L (ok_or AssignmentMissing (mc_addr circ)) t2 = Inr (addr, t3)"
    "mul_var L addr addr t3 = (ab, t4)"
    "new_witness L (ok_or AssignmentMissing (mc_secret circ)) t4 = Inr (secret, t5)"
    "hash2_gadget L secret (new_constant L (fr_from LEAF_DOMAIN)) (mc_constants circ) t5 = (c0, t6)"
    "path_loop L circ [0..<DEPTH] c0 t6 = Inr (c1, t7)"
    "enforce_equal L c1 root t7 = Inr t8"
    "hash2_gadget L secret (new_constant L (fr_from NULLIFIER_DOMAIN)) (mc_constants circ) t8 = (nc, t9)"
    "enforce_equal L nc nullifier t9 = Inr t'"
    using gen unfolding generate_constraints_def Let_def try_r_pair_iff try_r_Inr_iff case_prod_eq_iff
    by blast
  obtain s1 where 1: "new_input L (ok_or AssignmentMissing (mc_root circ')) s = Inr (root, s1)"
      "mirrors s1 t1" using mirror_input [OF m t(1)] by blast
  obtain s2 where 2: "new_input L (ok_or AssignmentMissing (mc_nullifier circ')) s1 = Inr (nullifier, s2)"
      "mirrors s2 t2" using mirror_input [OF 1(2) t(2)] by blast
  obtain s3 where 3: "new_input L (ok_or AssignmentMissing (mc_addr circ')) s2 = Inr (addr, s3)"
      "mirrors s3 t3" using mirror_input [OF 2(2) t(3)] by blast
  obtain s4 where 4: "mul_var L addr addr s3 = (ab, s4)" "mirrors s4 t4"
    using mirror_mul [OF 3(2) t(4)] by blast
  obtain s5 where 5: "new_witness L (ok_or AssignmentMissing (mc_secret circ')) s4 = Inr (secret, s5)"
      "mirrors s5 t5" using mirror_witness [OF 4(2) t(5)] by blast
  obtain s6 where 6: "hash2_gadget L secret (new_constant L (fr_from LEAF_DOMAIN)) (mc_constants circ) s5 = (c0, s6)"
      "mirrors s6 t6" using mirror_hash2 [OF 5(2) t(6)] by blast
  obtain s7 where 7: "path_loop L circ' [0..<DEPTH] c0 s6 = Inr (c1, s7)" "mirrors s7 t7"
    using mirror_path_loop [OF 6(2) t(7) C] by blast
  obtain s8 where 8: "enforce_equal L c1 root s7 = Inr s8" "mirrors s8 t8"
    using mirror_equal [OF 7(2) t(8)] by blast
  obtain s9 where 9: "hash2_gadget L secret (new_constant L (fr_from NULLIFIER_DOMAIN)) (mc_constants circ) s8 = (nc, s9)"
      "mirrors s9 t9" using mirror_hash2 [OF 8(2) t(9)] by blast
  from mirror_equal [OF 9(2) t(10)] show ?thesis
    by (simp add: generate_constraints_def Let_def C 1(1) 2(1) 3(1) 4(1) 5(1) 6(1) 7(1) 8(1) 9(1))
qed

end

end
