(* ===== verification/Externs.thy ===== *)
theory Externs
  imports Encoding Circuit
begin

text \<open>
  The third-party code the program calls, as one record of functions that the definitions take as
  a parameter: the \<open>hex\<close> and \<open>sha2\<close> crates, Groth16 (\<open>ark-groth16\<close>), the arkworks serialization of
  keys, the seeded generator \<open>ChaCha20Rng\<close> and the text of a \<open>tokio\<close> join error. What the program relies on is stated separately:
  the locale \<open>hex_codec\<close> for the hex crate, interpreted on the lowercase codec it documents, and
  the predicates \<open>groth16_complete\<close> and \<open>key_serialization\<close>.
\<close>

record ('pk, 'rng) externs =
  hex_encode :: "u8 list \<Rightarrow> string"
  hex_decode :: "string \<Rightarrow> u8 list option"
  sha256 :: "u8 list \<Rightarrow> u8 list"
  groth_setup :: "merkle_circuit \<Rightarrow> 'rng \<Rightarrow> ('pk \<times> verifying_key) \<times> 'rng"
  groth_prove :: "'pk \<Rightarrow> merkle_circuit \<Rightarrow> 'rng \<Rightarrow> (synthesis_error + groth_proof) \<times> 'rng"
  groth_verify :: "verifying_key \<Rightarrow> fr list \<Rightarrow> groth_proof \<Rightarrow> synthesis_error + bool"
  pk_to_bytes :: "'pk \<Rightarrow> u8 list"
  pk_from_bytes :: "u8 list \<Rightarrow> 'pk option"
  vk_to_bytes :: "verifying_key \<Rightarrow> u8 list"
  vk_from_bytes :: "u8 list \<Rightarrow> verifying_key option"
  seed_from_u64 :: "64 word \<Rightarrow> 'rng"
  join_error_text :: string

subsection \<open>Hex digits\<close>

definition lower_hex :: string where
  "lower_hex = ''0123456789abcdef''"

definition char_in :: "nat \<Rightarrow> nat \<Rightarrow> char \<Rightarrow> bool" where
  "char_in lo hi c \<longleftrightarrow> lo \<le> of_char c \<and> of_char c \<le> hi"

text \<open>\<open>char::is_ascii_hexdigit\<close>: \<open>'0'..='9' | 'A'..='F' | 'a'..='f'\<close>.\<close>

definition is_hex_digit :: "char \<Rightarrow> bool" where
  "is_hex_digit c \<longleftrightarrow> char_in 48 57 c \<or> char_in 65 70 c \<or> char_in 97 102 c"

text \<open>\<open>to_ascii_lowercase\<close>.\<close>

definition ascii_lower :: "char \<Rightarrow> char" where
  "ascii_lower c = (if char_in 65 90 c then char_of (of_char c + 32 :: nat) else c)"

definition to_ascii_lowercase :: "string \<Rightarrow> string" where
  "to_ascii_lowercase = map ascii_lower"

text \<open>\<open>str::as_bytes\<close>: strings are byte strings.\<close>

definition as_bytes :: "string \<Rightarrow> u8 list" where
  "as_bytes = map of_char"

subsection \<open>The hex crate\<close>

locale hex_codec =
  fixes X :: "('pk, 'rng, 'z) externs_scheme"
  assumes decode_encode: "hex_decode X (hex_encode X bs) = Some bs"
    and length_encode: "length (hex_encode X bs) = 2 * length bs"
    and encode_digits: "set (hex_encode X bs) \<subseteq> set lower_hex"
    and decode_Some_iff:
      "(\<exists>bs. hex_decode X s = Some bs) \<longleftrightarrow> even (length s) \<and> (\<forall>c \<in> set s. is_hex_digit c)"
    and encode_decode: "hex_decode X s = Some bs \<Longrightarrow> hex_encode X bs = to_ascii_lowercase s"
begin

lemma decode_length: "hex_decode X s = Some bs \<Longrightarrow> length s = 2 * length bs"
  using encode_decode [of s bs] length_encode [of bs] by (simp add: to_ascii_lowercase_def)

lemma encode_inj: "hex_encode X a = hex_encode X b \<longleftrightarrow> a = b"
  by (metis decode_encode option.inject)

lemma encode_is_lower: "to_ascii_lowercase (hex_encode X bs) = hex_encode X bs"
  using encode_decode [OF decode_encode] by simp

lemma decode_lower: "hex_decode X s = Some bs \<Longrightarrow> hex_decode X (to_ascii_lowercase s) = Some bs"
  using encode_decode decode_encode by metis

end

subsection \<open>The lowercase codec\<close>

definition nibble_char :: "nat \<Rightarrow> char" where
  "nibble_char n = lower_hex ! n"

definition hex_digit_value :: "char \<Rightarrow> nat option" where
  "hex_digit_value c = position (\<lambda>d. d = ascii_lower c) lower_hex"

fun std_hex_encode :: "u8 list \<Rightarrow> string" where
  "std_hex_encode [] = []"
| "std_hex_encode (b # bs) =
     nibble_char (unat b div 16) # nibble_char (unat b mod 16) # std_hex_encode bs"

fun std_hex_decode :: "string \<Rightarrow> u8 list option" where
  "std_hex_decode [] = Some []"
| "std_hex_decode [c] = None"
| "std_hex_decode (c # d # s) =
     (case (hex_digit_value c, hex_digit_value d, std_hex_decode s) of
        (Some h, Some l, Some bs) \<Rightarrow> Some (of_nat (16 * h + l) # bs)
      | _ \<Rightarrow> None)"

lemma length_lower_hex: "length lower_hex = 16"
  by (simp add: lower_hex_def)

lemma hex_digit_value_nibble: "n < 16 \<Longrightarrow> hex_digit_value (nibble_char n) = Some n"
proof -
  have "list_all (\<lambda>n. hex_digit_value (nibble_char n) = Some n) [0..<16]" by code_simp
  then show "n < 16 \<Longrightarrow> ?thesis" by (simp add: list_all_iff)
qed

lemma lower_hex_codes: "c \<in> set lower_hex \<longleftrightarrow> (of_char c :: nat) \<in> {48..57} \<union> {97..102}"
proof -
  have "c \<in> set lower_hex \<longleftrightarrow> (of_char c :: nat) \<in> set (map of_char lower_hex)"
    by (metis char_of_char image_iff list.set_map)
  also have "set (map of_char lower_hex) = set ([48..<58] @ [97..<103 :: nat])"
    by (rule arg_cong [of _ _ set]) code_simp
  finally show ?thesis unfolding set_append set_upt Un_iff atLeastLessThan_iff atLeastAtMost_iff
    by linarith
qed

lemma ascii_lower_hex: "ascii_lower c \<in> set lower_hex \<longleftrightarrow> is_hex_digit c"
proof (cases "char_in 65 90 c")
  case True
  then have "(of_char (ascii_lower c) :: nat) = of_char c + 32"
    by (simp add: ascii_lower_def char_in_def)
  with True show ?thesis
    unfolding lower_hex_codes by (auto simp: is_hex_digit_def char_in_def)
next
  case False
  then show ?thesis
    unfolding lower_hex_codes by (auto simp: is_hex_digit_def char_in_def ascii_lower_def)
qed

lemma hex_digit_value_None_iff: "hex_digit_value c = None \<longleftrightarrow> \<not> is_hex_digit c"
  using ascii_lower_hex [of c] by (auto simp: hex_digit_value_def position_None_iff)

lemma hex_digit_value_Some: "hex_digit_value c = Some n \<Longrightarrow> n < 16 \<and> nibble_char n = ascii_lower c"
  using position_SomeD [of "\<lambda>d. d = ascii_lower c" lower_hex n]
  by (simp add: hex_digit_value_def nibble_char_def length_lower_hex)

lemma std_decode_encode: "std_hex_decode (std_hex_encode bs) = Some bs"
proof (induction bs)
  case (Cons b bs)
  have "unat b div 16 < 16" "unat b mod 16 < 16" using unat_u8_less [of b] by simp_all
  moreover have "(of_nat (16 * (unat b div 16) + unat b mod 16) :: u8) = b" by simp
  ultimately show ?case using Cons by (simp add: hex_digit_value_nibble)
qed simp

lemma std_decode_Some_iff:
  "(\<exists>bs. std_hex_decode s = Some bs) \<longleftrightarrow> even (length s) \<and> (\<forall>c \<in> set s. is_hex_digit c)"
proof (induction s rule: std_hex_decode.induct)
  case (3 c d s)
  then show ?case
    using hex_digit_value_None_iff [of c] hex_digit_value_None_iff [of d]
    by (auto split: option.splits)
qed auto

lemma std_encode_decode: "std_hex_decode s = Some bs \<Longrightarrow> std_hex_encode bs = to_ascii_lowercase s"
proof (induction s arbitrary: bs rule: std_hex_decode.induct)
  case (3 c d s)
  then obtain h l bs' where v: "hex_digit_value c = Some h" "hex_digit_value d = Some l"
      "std_hex_decode s = Some bs'" "bs = of_nat (16 * h + l) # bs'"
    by (auto split: option.splits)
  have h: "h < 16" "l < 16" using v(1,2) hex_digit_value_Some by blast+
  then have "unat (of_nat (16 * h + l) :: u8) = 16 * h + l"
    unfolding unat_of_nat_u8 by simp
  then have "std_hex_encode bs = nibble_char h # nibble_char l # std_hex_encode bs'"
    using h v(4) by simp
  then show ?case
    using v hex_digit_value_Some "3.IH" [OF v(3)] by (simp add: to_ascii_lowercase_def)
qed (simp_all add: to_ascii_lowercase_def)

lemma std_encode_digits: "set (std_hex_encode bs) \<subseteq> set lower_hex"
proof (induction bs)
  case (Cons b bs)
  have "unat b div 16 < length lower_hex" "unat b mod 16 < length lower_hex"
    using unat_u8_less [of b] by (simp_all add: length_lower_hex)
  with Cons show ?case by (simp add: nibble_char_def nth_mem)
qed simp

text \<open>Any linking of the program against the lowercase codec satisfies the laws.\<close>

lemma std_hex_codec:
  assumes "hex_encode X = std_hex_encode" and "hex_decode X = std_hex_decode"
  shows "hex_codec X"
  by unfold_locales
    (use assms in \<open>simp_all add: std_decode_encode std_encode_digits std_decode_Some_iff
      std_encode_decode\<close>, induct_tac bs, simp_all)

end
