(* ===== verification/Merkle.thy ===== *)
theory Merkle
  imports Circuit
begin

text \<open>
  The fixed-depth Merkle tree of \<open>src/merkle.rs\<close>. The root and witness loops are translated as
  they are, with the panics of \<open>pair[1]\<close>, \<open>level[0]\<close> and \<open>level[idx ^ 1]\<close> as \<open>None\<close>; the abstract
  tree is \<open>subtree_root\<close>, the hash of a perfect binary tree by recursion on its depth. The lemmas
  show that the loops never panic and compute the abstract root, that a witness folds back to it,
  and that a path which folds to the root from another leaf exhibits a hash collision.
\<close>

subsection \<open>Tree and operations\<close>

record merkle_witness =
  path_elements :: "fr list"
  path_indices :: "bool list"

definition empty_leaf :: fr where
  "empty_leaf = fr_from (0 :: 64 word)"

record merkle_tree =
  constants :: "fr list"
  leaves :: "fr list"

definition CAPACITY :: nat where
  "CAPACITY = push_bit DEPTH 1"

datatype merkle_error = Full | IndexOutOfRange

definition new_tree :: merkle_tree where
  "new_tree = \<lparr> constants = round_constants, leaves = [] \<rparr>"

definition from_leaves :: "fr list \<Rightarrow> merkle_error + merkle_tree" where
  "from_leaves ls =
     (if CAPACITY < length ls then Inl Full
      else Inr \<lparr> constants = round_constants, leaves = ls \<rparr>)"

definition default_tree :: merkle_tree where
  "default_tree = new_tree"

definition tree_leaves :: "merkle_tree \<Rightarrow> fr list" where
  "tree_leaves t = leaves t"

definition tree_len :: "merkle_tree \<Rightarrow> nat" where
  "tree_len t = length (leaves t)"

definition tree_is_empty :: "merkle_tree \<Rightarrow> bool" where
  "tree_is_empty t = (leaves t = [])"

text \<open>\<open>push\<close> returns the result and the tree as it is afterwards.\<close>

definition push :: "fr \<Rightarrow> merkle_tree \<Rightarrow> (merkle_error + nat) \<times> merkle_tree" where
  "push leaf t =
     (if CAPACITY \<le> length (leaves t) then (Inl Full, t)
      else let t' = t\<lparr> leaves := leaves t @ [leaf] \<rparr> in (Inr (length (leaves t') - 1), t'))"

definition padded :: "merkle_tree \<Rightarrow> fr list" where
  "padded t = vec_resize CAPACITY empty_leaf (leaves t)"

text \<open>\<open>for pair in level.chunks(2)\<close>: a last chunk of one element panics at \<open>pair[1]\<close>.\<close>

fun next_level :: "fr list \<Rightarrow> fr list \<Rightarrow> fr list option" where
  "next_level cs [] = Some []"
| "next_level cs [x] = None"
| "next_level cs (x # y # level) =
     (case next_level cs level of None \<Rightarrow> None | Some next \<Rightarrow> Some (hash2 x y cs # next))"

lemma next_level_length: "next_level cs level = Some next \<Longrightarrow> 2 * length next = length level"
  by (induction cs level arbitrary: "next" rule: next_level.induct) (auto split: option.splits)

function root_loop :: "fr list \<Rightarrow> fr list \<Rightarrow> fr option" where
  "root_loop cs level =
     (if 1 < length level
      then case next_level cs level of None \<Rightarrow> None | Some next \<Rightarrow> root_loop cs next
      else case level of [] \<Rightarrow> None | x # _ \<Rightarrow> Some x)"
  by pat_completeness auto
termination
  by (relation "measure (\<lambda>(cs, level). length level)") (auto dest: next_level_length)

declare root_loop.simps [simp del]

definition tree_root :: "merkle_tree \<Rightarrow> fr option" where
  "tree_root t = root_loop (constants t) (padded t)"

text \<open>The body of \<open>for _ in 0..DEPTH\<close> in \<open>witness\<close>.\<close>

fun witness_loop :: "nat \<Rightarrow> fr list \<Rightarrow> fr list \<Rightarrow> nat \<Rightarrow> (fr list \<times> bool list) option" where
  "witness_loop 0 cs level idx = Some ([], [])"
| "witness_loop (Suc n) cs level idx =
     (if idx XOR 1 < length level
      then let sibling = level ! (idx XOR 1) in
        (case next_level cs level of None \<Rightarrow> None
         | Some next \<Rightarrow>
             (case witness_loop n cs next (drop_bit 1 idx) of None \<Rightarrow> None
              | Some (es, ds) \<Rightarrow> Some (sibling # es, (idx AND 1 = 1) # ds)))
      else None)"

definition witness :: "merkle_tree \<Rightarrow> nat \<Rightarrow> merkle_error failure + merkle_witness" where
  "witness t index =
     (if length (leaves t) \<le> index then Inl (Failed IndexOutOfRange)
      else try_r (or_panic (witness_loop DEPTH (constants t) (padded t) index)) (\<lambda>(es, ds).
        Inr \<lparr> path_elements = es, path_indices = ds \<rparr>))"

subsection \<open>The abstract tree\<close>

fun subtree_root :: "fr list \<Rightarrow> nat \<Rightarrow> fr list \<Rightarrow> fr" where
  "subtree_root cs 0 level = hd level"
| "subtree_root cs (Suc d) level =
     hash2 (subtree_root cs d (take (2 ^ d) level)) (subtree_root cs d (drop (2 ^ d) level)) cs"

fun pairs :: "fr list \<Rightarrow> fr list \<Rightarrow> fr list" where
  "pairs cs (x # y # level) = hash2 x y cs # pairs cs level"
| "pairs cs level = []"

lemma next_level_even: "even (length level) \<Longrightarrow> next_level cs level = Some (pairs cs level)"
  by (induction cs level rule: next_level.induct) auto

lemma length_pairs [simp]: "length (pairs cs level) = length level div 2"
  by (induction cs level rule: pairs.induct) auto

lemma pairs_append: "even (length a) \<Longrightarrow> pairs cs (a @ b) = pairs cs a @ pairs cs b"
  by (induction cs a rule: pairs.induct) auto

lemma nth_pairs:
  "2 * i + 1 < length level \<Longrightarrow> pairs cs level ! i = hash2 (level ! (2 * i)) (level ! (2 * i + 1)) cs"
proof (induction cs level arbitrary: i rule: pairs.induct)
  case (1 cs x y level)
  then show ?case by (cases i) auto
qed auto

lemma subtree_root_pairs:
  "length level = 2 ^ Suc d \<Longrightarrow> subtree_root cs d (pairs cs level) = subtree_root cs (Suc d) level"
proof (induction d arbitrary: level)
  case 0
  then obtain x y where "level = [x, y]"
    by (cases level; cases "tl level") auto
  then show ?case by simp
next
  case (Suc d)
  let ?a = "take (2 ^ Suc d) level" and ?b = "drop (2 ^ Suc d) level"
  have len: "length ?a = 2 ^ Suc d" "length ?b = 2 ^ Suc d" using Suc.prems by simp_all
  have "pairs cs level = pairs cs (?a @ ?b)" by simp
  also have "\<dots> = pairs cs ?a @ pairs cs ?b" using len(1) by (intro pairs_append) simp
  finally have "pairs cs level = pairs cs ?a @ pairs cs ?b" .
  moreover have "length (pairs cs ?a) = 2 ^ d" by (simp only: length_pairs len(1)) simp
  ultimately have
    "subtree_root cs (Suc d) (pairs cs level) =
      hash2 (subtree_root cs d (pairs cs ?a)) (subtree_root cs d (pairs cs ?b)) cs"
    by simp
  also have "\<dots> = subtree_root cs (Suc (Suc d)) level"
    by (simp only: Suc.IH [OF len(1)] Suc.IH [OF len(2)] subtree_root.simps(2) [of cs "Suc d"])
  finally show ?case .
qed

lemma root_loop_correct: "length level = 2 ^ d \<Longrightarrow> root_loop cs level = Some (subtree_root cs d level)"
proof (induction d arbitrary: level)
  case 0
  then show ?case by (cases level) (simp_all add: root_loop.simps)
next
  case (Suc d)
  have "1 < length level" unfolding Suc.prems by (rule one_less_power) simp_all
  moreover have "next_level cs level = Some (pairs cs level)"
    using Suc.prems by (intro next_level_even) simp
  ultimately have "root_loop cs level = root_loop cs (pairs cs level)"
    by (subst root_loop.simps) simp
  also have "\<dots> = Some (subtree_root cs d (pairs cs level))"
    using Suc.prems by (intro Suc.IH) simp
  finally show ?case by (simp only: subtree_root_pairs [OF Suc.prems])
qed

lemma CAPACITY_eq: "CAPACITY = 2 ^ DEPTH"
  by (simp add: CAPACITY_def push_bit_eq_mult)

lemma CAPACITY_16: "CAPACITY = 16"
  by (simp add: CAPACITY_eq DEPTH_def)

lemma length_padded [simp]: "length (padded t) = 2 ^ DEPTH"
  by (simp add: padded_def CAPACITY_eq)

lemma nth_padded:
  "i < CAPACITY \<Longrightarrow> padded t ! i = (if i < length (leaves t) then leaves t ! i else empty_leaf)"
  by (simp add: padded_def nth_vec_resize)

definition abs_root :: "merkle_tree \<Rightarrow> fr" where
  "abs_root t = subtree_root (constants t) DEPTH (padded t)"

lemma tree_root_abs: "tree_root t = Some (abs_root t)"
  by (simp add: tree_root_def abs_root_def root_loop_correct)

subsection \<open>Witnesses fold back to the root\<close>

lemma xor_one_nat: "(i::nat) XOR 1 = (if even i then i + 1 else i - 1)"
  unfolding xor_one_eq by simp

lemma xor_one_less: "i < 2 * n \<Longrightarrow> (i::nat) XOR 1 < 2 * n"
  unfolding xor_one_nat by (auto elim!: evenE)

lemma and_one_odd: "(i::nat) AND 1 = 1 \<longleftrightarrow> odd i"
  unfolding and_one_eq by (simp add: odd_iff_mod_2_eq_one)

lemma drop_bit_one_nat: "drop_bit 1 (i::nat) = i div 2"
  by (simp add: drop_bit_Suc)

lemma fold_step_pairs:
  assumes "i < length level" "even (length level)"
  shows "fold_path cs (level ! i) [(level ! (i XOR 1), i AND 1 = 1)] = pairs cs level ! drop_bit 1 i"
proof (cases "even i")
  case True
  then obtain j where j: "i = 2 * j" by (elim evenE)
  with assms have "2 * j + 1 < length level" by presburger
  then show ?thesis
    using j unfolding xor_one_nat and_one_odd drop_bit_one_nat by (simp add: nth_pairs)
next
  case False
  then obtain j where j: "i = 2 * j + 1" by (elim oddE)
  with assms have "2 * j + 1 < length level" by simp
  then show ?thesis
    using j unfolding xor_one_nat and_one_odd drop_bit_one_nat by (simp add: nth_pairs)
qed

lemma witness_loop_correct:
  "length level = 2 ^ d \<Longrightarrow> i < 2 ^ d \<Longrightarrow>
     \<exists>es ds. witness_loop d cs level i = Some (es, ds) \<and> length es = d \<and> length ds = d \<and>
       fold_path cs (level ! i) (zip es ds) = subtree_root cs d level"
proof (induction d arbitrary: level i)
  case 0
  then show ?case by (cases level) simp_all
next
  case (Suc d)
  let ?next = "pairs cs level"
  have ev: "even (length level)" using Suc.prems(1) by simp
  have "drop_bit 1 i < 2 ^ d" using Suc.prems(2) unfolding drop_bit_one_nat by (simp add: less_mult_imp_div_less)
  then obtain es ds where rest: "witness_loop d cs ?next (drop_bit 1 i) = Some (es, ds)"
      "length es = d" "length ds = d"
      "fold_path cs (?next ! drop_bit 1 i) (zip es ds) = subtree_root cs d ?next"
    using Suc.IH [of ?next "drop_bit 1 i"] Suc.prems(1) by auto
  have "i XOR 1 < length level" using Suc.prems xor_one_less [of i "2 ^ d"] by simp
  then have "witness_loop (Suc d) cs level i = Some (level ! (i XOR 1) # es, (i AND 1 = 1) # ds)"
    by (simp only: witness_loop.simps Let_def next_level_even [OF ev] rest(1) if_True
        option.case prod.case)
  moreover have "fold_path cs (level ! i) (zip (level ! (i XOR 1) # es) ((i AND 1 = 1) # ds)) =
      fold_path cs (fold_path cs (level ! i) [(level ! (i XOR 1), i AND 1 = 1)]) (zip es ds)"
    by simp
  moreover have "\<dots> = subtree_root cs (Suc d) level"
    using Suc.prems by (simp only: fold_step_pairs [OF _ ev] rest(4) subtree_root_pairs)
  ultimately show ?case using rest(2,3) by simp
qed

text \<open>The witness of an index in range succeeds, never panics, and folds to the root.\<close>

lemma witness_correct:
  assumes "i < length (leaves t)" "length (leaves t) \<le> CAPACITY"
  shows "\<exists>w. witness t i = Inr w \<and> length (path_elements w) = DEPTH \<and>
    length (path_indices w) = DEPTH \<and>
    fold_path (constants t) (leaves t ! i) (zip (path_elements w) (path_indices w)) = abs_root t"
proof -
  have i: "i < 2 ^ DEPTH" using assms by (simp add: CAPACITY_eq)
  obtain es ds where w: "witness_loop DEPTH (constants t) (padded t) i = Some (es, ds)"
      "length es = DEPTH" "length ds = DEPTH"
      "fold_path (constants t) (padded t ! i) (zip es ds) = abs_root t"
    using witness_loop_correct [OF length_padded i, of "constants t" t] unfolding abs_root_def by blast
  have "padded t ! i = leaves t ! i" using assms i by (simp add: nth_padded CAPACITY_eq)
  with w assms(1) show ?thesis by (simp add: witness_def)
qed

subsection \<open>Binding: another leaf exhibits a collision\<close>

text \<open>
  The position a path's direction bits spell, least significant first, and the collision found by
  running a claimed path next to the honest tree: the first level at which the two hash equal
  outputs from different inputs.
\<close>

fun path_position :: "bool list \<Rightarrow> nat" where
  "path_position [] = 0"
| "path_position (d # ds) = (if d then 1 else 0) + 2 * path_position ds"

definition claimed_pair :: "fr \<Rightarrow> fr \<times> bool \<Rightarrow> fr \<times> fr" where
  "claimed_pair cur step = (case step of (sib, is_right) \<Rightarrow> if is_right then (sib, cur) else (cur, sib))"

fun find_collision ::
  "fr list \<Rightarrow> fr list \<Rightarrow> fr \<Rightarrow> (fr \<times> bool) list \<Rightarrow> ((fr \<times> fr) \<times> (fr \<times> fr)) option" where
  "find_collision cs level cur [] = None"
| "find_collision cs level cur (step # path) =
     (let claimed = claimed_pair cur step;
          i = path_position (map snd path);
          honest = (level ! (2 * i), level ! (2 * i + 1));
          next = hash2 (fst claimed) (snd claimed) cs
      in if next = hash2 (fst honest) (snd honest) cs
         then (if claimed = honest then None else Some (claimed, honest))
         else find_collision cs (pairs cs level) next path)"

lemma path_position_less: "path_position ds < 2 ^ length ds"
  by (induction ds) auto

lemma find_collision_sound:
  "find_collision cs level cur path = Some (p, q) \<Longrightarrow>
     p \<noteq> q \<and> hash2 (fst p) (snd p) cs = hash2 (fst q) (snd q) cs"
  by (induction cs level cur path rule: find_collision.induct) (auto simp: Let_def split: if_splits)

lemma fold_path_Cons_claimed:
  "fold_path cs cur (step # path) =
     fold_path cs (hash2 (fst (claimed_pair cur step)) (snd (claimed_pair cur step)) cs) path"
  by (cases step) (simp add: claimed_pair_def)

lemma binding:
  "length level = 2 ^ length path \<Longrightarrow> fold_path cs cur path = subtree_root cs (length path) level \<Longrightarrow>
     cur = level ! path_position (map snd path) \<or> (\<exists>c. find_collision cs level cur path = Some c)"
proof (induction path arbitrary: cur level)
  case Nil
  then show ?case by (cases level) simp_all
next
  case (Cons step path)
  let ?i = "path_position (map snd path)" and ?c = "claimed_pair cur step"
  let ?h = "(level ! (2 * ?i), level ! (2 * ?i + 1))"
  let ?next = "hash2 (fst ?c) (snd ?c) cs"
  have len: "length level = 2 ^ Suc (length path)" using Cons.prems(1) by simp
  have i: "2 * ?i + 1 < length level"
    using path_position_less [of "map snd path"] len by simp
  have "fold_path cs ?next path = subtree_root cs (length path) (pairs cs level)"
    using Cons.prems(2) by (simp only: fold_path_Cons_claimed subtree_root_pairs [OF len] list.size add_Suc_right add_0_right)
  then have IH: "?next = pairs cs level ! ?i \<or> (\<exists>c. find_collision cs (pairs cs level) ?next path = Some c)"
    using len by (intro Cons.IH) simp_all
  have pi: "pairs cs level ! ?i = hash2 (fst ?h) (snd ?h) cs" using nth_pairs [OF i] by simp
  show ?case
  proof (cases "?next = hash2 (fst ?h) (snd ?h) cs")
    case True
    show ?thesis
    proof (cases "?c = ?h")
      case True
      then have "cur = level ! path_position (map snd (step # path))"
        by (cases step) (auto simp: claimed_pair_def split: if_splits)
      then show ?thesis by blast
    next
      case False
      with True show ?thesis by (simp add: Let_def)
    qed
  next
    case False
    then have nf: "?next \<noteq> pairs cs level ! ?i" by (simp add: pi)
    with IH obtain c where "find_collision cs (pairs cs level) ?next path = Some c" by blast
    then have "find_collision cs level cur (step # path) = Some c"
      using False by (simp add: Let_def)
    then show ?thesis by blast
  qed
qed

subsection \<open>Growing a tree leaf by leaf\<close>

text \<open>A sequence of pushes, with the result of each.\<close>

fun push_all :: "fr list \<Rightarrow> merkle_tree \<Rightarrow> (merkle_error + nat) list \<times> merkle_tree" where
  "push_all [] t = ([], t)"
| "push_all (f # fs) t =
     (let (r, t1) = push f t; (rs, t2) = push_all fs t1 in (r # rs, t2))"

lemma push_all_spec:
  assumes "length (leaves t) \<le> CAPACITY"
  shows "push_all fs t =
    (map (\<lambda>i. if i < CAPACITY then Inr i else Inl Full) [length (leaves t)..<length (leaves t) + length fs],
     t\<lparr> leaves := take CAPACITY (leaves t @ fs) \<rparr>)"
  using assms
proof (induction fs arbitrary: t)
  case (Cons f fs)
  let ?n = "length (leaves t)" and ?answer = "\<lambda>i. if i < CAPACITY then Inr i else Inl Full"
  have upt: "[n..<Suc (n + k)] = n # [Suc n..<Suc (n + k)]" for n k
    by (simp add: upt_conv_Cons del: upt_Suc)
  show ?case
  proof (cases "?n < CAPACITY")
    case True
    then show ?thesis using Cons.IH [of "t\<lparr> leaves := leaves t @ [f] \<rparr>"]
      by (simp add: push_def upt del: upt_Suc)
  next
    case False
    have "map ?answer [?n..<?n + length fs] = map ?answer [Suc ?n..<Suc (?n + length fs)]"
      by (rule nth_equalityI) (use False in \<open>auto simp del: upt_Suc\<close>)
    with False Cons show ?thesis by (simp add: push_def upt del: upt_Suc)
  qed
qed simp

end
