(* ===== verification/Store.thy ===== *)
theory Store
  imports Postgres Externs Merkle
begin

text \<open>
  The persistence layer, \<open>src/store.rs\<close>: each method of \<open>Store\<close> as a program of SQL requests. The
  invariant \<open>store_ok\<close> is what the tables satisfy between requests; \<open>abs_leaves\<close> and
  \<open>abs_published\<close> read the tables as what they stand for, a list of leaves and a published root
  per issuer. The locale \<open>tree_store\<close> is the contract the API relies on.
\<close>

subsection \<open>Errors and conversions\<close>

datatype store_error = Db string | Migrate string | BadHex | StoreFull

text \<open>\<open>to_string()\<close> of the error, as \<open>thiserror\<close> derives it.\<close>

primrec store_error_text :: "store_error \<Rightarrow> string" where
  "store_error_text (Db t) = ''database error: '' @ t"
| "store_error_text (Migrate t) = ''migration error: '' @ t"
| "store_error_text BadHex = ''a stored value was not valid 32-byte hex''"
| "store_error_text StoreFull = ''the tree for this issuer is full''"

definition to_hex :: "('pk, 'rng, 'z) externs_scheme \<Rightarrow> fr \<Rightarrow> string" where
  "to_hex X f = hex_encode X (fr_be f)"

definition from_hex :: "('pk, 'rng, 'z) externs_scheme \<Rightarrow> string \<Rightarrow> store_error + fr" where
  "from_hex X s =
     try_r (ok_or BadHex (hex_decode X s)) (\<lambda>bytes.
     if length bytes = 32 then Inr (fr_from_be bytes) else Inl BadHex)"

subsection \<open>The methods\<close>

text \<open>
  \<open>Store::connect\<close>. Opening the pool and running the migrations are the database library's; either
  may fail with the text of its error.
\<close>

definition store_connect ::
  "(string \<Rightarrow> string + 'pool) \<Rightarrow> ('pool \<Rightarrow> string + 'db) \<Rightarrow> string \<Rightarrow> store_error + 'db" where
  "store_connect open_pool run_migrations database_url =
     try_r (map_err Db (open_pool database_url)) (\<lambda>pool.
     map_err Migrate (run_migrations pool))"

text \<open>One statement on the pool; its result is turned into the method's.\<close>

definition query :: "sql \<Rightarrow> (sql_result \<Rightarrow> store_error + 'a) \<Rightarrow> (store_error + 'a) prog" where
  "query s f = Call (Pool s) (\<lambda>r. case r of Error t \<Rightarrow> Return (Inl (Db t)) | Result res \<Rightarrow> Return (f res))"

definition no_rows :: "sql_result \<Rightarrow> store_error + unit" where
  "no_rows res = Inr ()"

text \<open>
  The result columns, as \<open>query_scalar\<close> types them. A statement never answers with another shape
  than its own; that case stands for a decoding error.
\<close>

definition scalar :: "sql_result \<Rightarrow> store_error + int8" where
  "scalar res = (case res of Number n \<Rightarrow> Inr n | _ \<Rightarrow> Inl (Db []))"

definition strings :: "sql_result \<Rightarrow> store_error + string list" where
  "strings res = (case res of Rows rows \<Rightarrow> Inr rows | _ \<Rightarrow> Inl (Db []))"

definition optional :: "sql_result \<Rightarrow> store_error + string option option" where
  "optional res = (case res of Row row \<Rightarrow> Inr row | _ \<Rightarrow> Inl (Db []))"

definition ping :: "(store_error + unit) prog" where
  "ping = query SelectOne no_rows"

definition ensure_issuer :: "string \<Rightarrow> (store_error + unit) prog" where
  "ensure_issuer name = query (InsertIssuer name) no_rows"

text \<open>Leaving \<open>add_leaf\<close> before the commit drops the transaction.\<close>

definition abort :: "store_error \<Rightarrow> (store_error + 'a) prog" where
  "abort e = Call Rollback (\<lambda>_. Return (Inl e))"

definition as_usize :: "int8 \<Rightarrow> nat" where
  "as_usize n = unat n"

definition as_i32 :: "int8 \<Rightarrow> int4" where
  "as_i32 n = ucast n"

definition i32_as_usize :: "int4 \<Rightarrow> nat" where
  "i32_as_usize n = unat (scast n :: int8)"

text \<open>\<open>add_leaf\<close> from \<open>self.pool.begin()\<close> on.\<close>

definition append_in_tx ::
  "('pk, 'rng, 'z) externs_scheme \<Rightarrow> string \<Rightarrow> fr \<Rightarrow> (store_error + (nat \<times> nat)) prog" where
  "append_in_tx X issuer commitment =
     Call Begin (\<lambda>r. case r of Error t \<Rightarrow> Return (Inl (Db t)) | Result _ \<Rightarrow>
     Call (Tx (TxCountLeaves issuer)) (\<lambda>r. case r of Error t \<Rightarrow> abort (Db t) | Result res \<Rightarrow>
     (case scalar res of Inl e \<Rightarrow> abort e | Inr count \<Rightarrow>
     if CAPACITY \<le> as_usize count then abort StoreFull
     else let position = as_i32 count in
     Call (Tx (TxInsertLeaf issuer position (to_hex X commitment))) (\<lambda>r. case r of
       Error t \<Rightarrow> abort (Db t)
     | Result _ \<Rightarrow>
     Call Commit (\<lambda>r. case r of Error t \<Rightarrow> Return (Inl (Db t)) | Result _ \<Rightarrow>
     Return (Inr (i32_as_usize position, as_usize count + 1)))))))"

definition add_leaf ::
  "('pk, 'rng, 'z) externs_scheme \<Rightarrow> string \<Rightarrow> fr \<Rightarrow> (store_error + (nat \<times> nat)) prog" where
  "add_leaf X issuer commitment =
     bind_ok (ensure_issuer issuer) (\<lambda>_. append_in_tx X issuer commitment)"

definition stored_leaves ::
  "('pk, 'rng, 'z) externs_scheme \<Rightarrow> string \<Rightarrow> (store_error + fr list) prog" where
  "stored_leaves X issuer =
     query (SelectLeaves issuer) (\<lambda>res. try_r (strings res) (collect_r (from_hex X)))"

definition set_published_root ::
  "('pk, 'rng, 'z) externs_scheme \<Rightarrow> string \<Rightarrow> fr \<Rightarrow> (store_error + unit) prog" where
  "set_published_root X issuer root =
     bind_ok (ensure_issuer issuer) (\<lambda>_. query (UpdateRoot issuer (to_hex X root)) no_rows)"

definition store_list_issuers :: "(store_error + string list) prog" where
  "store_list_issuers = query SelectIssuers strings"

definition issuer_exists :: "string \<Rightarrow> (store_error + bool) prog" where
  "issuer_exists issuer = query (CountIssuers issuer) (\<lambda>res. try_r (scalar res) (\<lambda>n. Inr (0 <s n)))"

definition leaf_count :: "string \<Rightarrow> (store_error + nat) prog" where
  "leaf_count issuer = query (CountLeaves issuer) (\<lambda>res. try_r (scalar res) (\<lambda>n. Inr (as_usize n)))"

definition published_root ::
  "('pk, 'rng, 'z) externs_scheme \<Rightarrow> string \<Rightarrow> (store_error + fr option) prog" where
  "published_root X issuer =
     query (SelectRoot issuer) (\<lambda>res.
       try_r (optional res) (\<lambda>row.
       case Option.bind row (\<lambda>r. r) of
         Some s \<Rightarrow> try_r (from_hex X s) (\<lambda>f. Inr (Some f))
       | None \<Rightarrow> Inr None))"

definition record_nullifier ::
  "('pk, 'rng, 'z) externs_scheme \<Rightarrow> string \<Rightarrow> fr \<Rightarrow> (store_error + unit) prog" where
  "record_nullifier X issuer null = query (InsertNullifier issuer (to_hex X null)) no_rows"

subsection \<open>The invariant and the abstract content\<close>

definition stored :: "('pk, 'rng, 'z) externs_scheme \<Rightarrow> string \<Rightarrow> bool" where
  "stored X h \<longleftrightarrow> (case from_hex X h of Inl _ \<Rightarrow> False | Inr f \<Rightarrow> to_hex X f = h)"

definition stored_fr :: "('pk, 'rng, 'z) externs_scheme \<Rightarrow> string \<Rightarrow> fr" where
  "stored_fr X h = (case from_hex X h of Inl _ \<Rightarrow> 0 | Inr f \<Rightarrow> f)"

definition issuer_leaves_ok :: "leaf_row list \<Rightarrow> bool" where
  "issuer_leaves_ok rows \<longleftrightarrow>
     map row_position rows = map of_nat [0..<length rows] \<and> length rows \<le> CAPACITY"

definition leaf_table_ok :: "('pk, 'rng, 'z) externs_scheme \<Rightarrow> string list \<Rightarrow> leaf_row list \<Rightarrow> bool" where
  "leaf_table_ok X names rows \<longleftrightarrow>
     (\<forall>r \<in> set rows. row_issuer r \<in> set names \<and> stored X (row_commitment r)) \<and>
     (\<forall>i \<in> set names. issuer_leaves_ok (rows_of i rows))"

definition issuer_table_ok :: "('pk, 'rng, 'z) externs_scheme \<Rightarrow> (string \<times> string option) list \<Rightarrow> bool" where
  "issuer_table_ok X rows \<longleftrightarrow>
     distinct (map fst rows) \<and>
     (\<forall>r \<in> set rows. case snd r of None \<Rightarrow> True | Some h \<Rightarrow> stored X h)"

definition nullifier_table_ok :: "string list \<Rightarrow> (string \<times> string) list \<Rightarrow> bool" where
  "nullifier_table_ok names rows \<longleftrightarrow> distinct rows \<and> (\<forall>r \<in> set rows. fst r \<in> set names)"

definition store_ok :: "('pk, 'rng, 'z) externs_scheme \<Rightarrow> database \<Rightarrow> bool" where
  "store_ok X d \<longleftrightarrow>
     issuer_table_ok X (issuer_rows d) \<and>
     leaf_table_ok X (issuer_names d) (leaf_rows d) \<and>
     nullifier_table_ok (issuer_names d) (nullifier_rows d)"

definition abs_leaves :: "('pk, 'rng, 'z) externs_scheme \<Rightarrow> database \<Rightarrow> string \<Rightarrow> fr list" where
  "abs_leaves X d i = map (\<lambda>r. stored_fr X (row_commitment r)) (rows_of i (leaf_rows d))"

definition abs_published :: "('pk, 'rng, 'z) externs_scheme \<Rightarrow> database \<Rightarrow> string \<Rightarrow> fr option" where
  "abs_published X d i =
     (case map_of (issuer_rows d) i of Some (Some h) \<Rightarrow> Some (stored_fr X h) | _ \<Rightarrow> None)"

definition empty_database :: "(string \<Rightarrow> string \<Rightarrow> bool) \<Rightarrow> database" where
  "empty_database le = \<lparr> issuer_rows = [], leaf_rows = [], nullifier_rows = [], collation = le, violation = [] \<rparr>"

lemma store_ok_empty: "store_ok X (empty_database le)"
  by (simp add: store_ok_def empty_database_def issuer_table_ok_def leaf_table_ok_def
      nullifier_table_ok_def issuer_names_def)

subsection \<open>Hex conversions\<close>

context hex_codec
begin

lemma from_hex_to_hex: "from_hex X (to_hex X f) = Inr f"
  by (simp add: from_hex_def to_hex_def decode_encode)

lemma stored_to_hex: "stored X (to_hex X f)"
  by (simp add: stored_def from_hex_to_hex)

lemma stored_fr_to_hex: "stored_fr X (to_hex X f) = f"
  by (simp add: stored_fr_def from_hex_to_hex)

lemma to_hex_length: "length (to_hex X f) = 64"
  by (simp add: to_hex_def length_encode)

end

lemma stored_from_hex: "stored X h \<Longrightarrow> from_hex X h = Inr (stored_fr X h)"
  by (auto simp: stored_def stored_fr_def split: sum.splits)

subsection \<open>Rows of an issuer\<close>

lemma rows_of_append [simp]: "rows_of i (a @ b) = rows_of i a @ rows_of i b"
  by (simp add: rows_of_def)

lemma rows_of_single: "rows_of i [r] = (if row_issuer r = i then [r] else [])"
  by (simp add: rows_of_def)

lemma rows_of_absent: "\<forall>r \<in> set rows. row_issuer r \<noteq> i \<Longrightarrow> rows_of i rows = []"
  by (simp add: rows_of_def filter_empty_conv)

lemma set_rows_of: "set (rows_of i rows) = {r \<in> set rows. row_issuer r = i}"
  by (simp add: rows_of_def)

lemma sint_small: "n \<le> CAPACITY \<Longrightarrow> sint (of_nat n :: int4) = int n"
proof -
  assume "n \<le> CAPACITY"
  then have "int n < 2 ^ 31" by (simp add: CAPACITY_16)
  then show ?thesis by (simp add: signed_of_nat signed_take_bit_int_eq_self)
qed

text \<open>Positions in insertion order are sorted, so \<open>ORDER BY position\<close> reads them as they are.\<close>

lemma issuer_leaves_nth:
  assumes "issuer_leaves_ok rows" "k < length rows"
  shows "row_position (rows ! k) = of_nat k"
proof -
  have "map row_position rows ! k = map of_nat [0..<length rows] ! k"
    using assms(1) by (simp add: issuer_leaves_ok_def)
  with assms(2) show ?thesis by simp
qed

lemma issuer_leaves_sorted:
  assumes "issuer_leaves_ok rows"
  shows "sorted_wrt position_le rows"
proof (unfold sorted_wrt_iff_nth_less, intro allI impI)
  fix i j assume ij: "i < j" "j < length rows"
  have "length rows \<le> CAPACITY" using assms by (simp add: issuer_leaves_ok_def)
  with ij show "position_le (rows ! i) (rows ! j)"
    by (simp add: position_le_def issuer_leaves_nth [OF assms] sint_small)
qed

lemma rows_of_ok: "leaf_table_ok X names rows \<Longrightarrow> issuer_leaves_ok (rows_of i rows)"
proof (cases "i \<in> set names")
  case False
  assume "leaf_table_ok X names rows"
  with False have "rows_of i rows = []" by (intro rows_of_absent) (auto simp: leaf_table_ok_def)
  then show ?thesis by (simp add: issuer_leaves_ok_def)
qed (simp add: leaf_table_ok_def)

lemma abs_leaves_length: "length (abs_leaves X d i) = length (rows_of i (leaf_rows d))"
  by (simp add: abs_leaves_def)

lemma abs_leaves_bound: "store_ok X d \<Longrightarrow> length (abs_leaves X d i) \<le> CAPACITY"
  using rows_of_ok [of X "issuer_names d" "leaf_rows d" i]
  by (simp add: abs_leaves_length store_ok_def issuer_leaves_ok_def)

lemma of_nat_small: "n \<le> CAPACITY \<Longrightarrow> unat (of_nat n :: int8) = n"
  by (simp add: CAPACITY_16 unat_of_nat)

lemma of_nat_pos_inj:
  "m \<le> CAPACITY \<Longrightarrow> n \<le> CAPACITY \<Longrightarrow> (of_nat m :: int4) = of_nat n \<longleftrightarrow> m = n"
  using sint_small [of m] sint_small [of n] by (metis of_nat_eq_iff)

lemma count_as_i32: "n \<le> CAPACITY \<Longrightarrow> as_i32 (of_nat n) = of_nat n"
  by (simp add: as_i32_def word_unat_eq_iff unsigned_ucast_eq unsigned_of_nat take_bit_nat_eq_self CAPACITY_16)

lemma position_as_usize: "n \<le> CAPACITY \<Longrightarrow> i32_as_usize (of_nat n) = n"
  by (simp add: i32_as_usize_def scast_eq sint_small of_nat_small)

text \<open>A row at the end of an issuer's rows keeps the table; a row at another position is a duplicate key.\<close>

lemma leaf_key_free:
  assumes "leaf_table_ok X names rows"
    and "row_key r \<notin> set (map row_key rows)" "row_issuer r = i" "row_position r = of_nat n"
    and "n \<le> length (rows_of i rows)"
  shows "n = length (rows_of i rows)"
proof (rule ccontr)
  assume "n \<noteq> length (rows_of i rows)"
  with assms(5) have n: "n < length (rows_of i rows)" by simp
  have "row_position (rows_of i rows ! n) = of_nat n"
    by (rule issuer_leaves_nth [OF rows_of_ok [OF assms(1)] n])
  moreover have "rows_of i rows ! n \<in> set (rows_of i rows)" using n by simp
  ultimately have "\<exists>r' \<in> set rows. row_key r' = row_key r"
    using assms(3,4) by (auto simp: set_rows_of row_key_def)
  then have "row_key r \<in> row_key ` set rows" by (metis imageI)
  with assms(2) show False by simp
qed

lemma leaf_table_append:
  assumes "leaf_table_ok X names rows" "row_issuer r \<in> set names" "stored X (row_commitment r)"
    and "row_position r = of_nat (length (rows_of (row_issuer r) rows))"
    and "length (rows_of (row_issuer r) rows) < CAPACITY"
  shows "leaf_table_ok X names (rows @ [r])"
  using assms by (auto simp: leaf_table_ok_def issuer_leaves_ok_def rows_of_single)

lemma leaf_table_names: "leaf_table_ok X names rows \<Longrightarrow> leaf_table_ok X (names @ [n]) rows"
  using rows_of_ok [of X names rows n] by (auto simp: leaf_table_ok_def)

subsection \<open>Single statements\<close>

text \<open>The only values the server stores are encodings of field elements.\<close>

definition sql_ok :: "('pk, 'rng, 'z) externs_scheme \<Rightarrow> sql \<Rightarrow> bool" where
  "sql_ok X s = (case s of UpdateRoot i h \<Rightarrow> stored X h | _ \<Rightarrow> True)"

lemma map_fst_update [simp]: "map fst (update_root name h rows) = map fst rows"
  by (induction rows) (auto simp: update_root_def)

lemma map_of_update:
  "map_of (update_root name h rows) i =
     (if i = name then map_option (\<lambda>_. Some h) (map_of rows i) else map_of rows i)"
  by (induction rows) (auto simp: update_root_def)

lemma set_update_root: "r \<in> set (update_root name h rows) \<Longrightarrow> snd r = Some h \<or> r \<in> set rows"
  by (auto simp: update_root_def split: if_splits)

lemma issuer_table_insert:
  "issuer_table_ok X rows \<Longrightarrow> n \<notin> set (map fst rows) \<Longrightarrow> issuer_table_ok X (rows @ [(n, None)])"
  by (auto simp: issuer_table_ok_def)

lemma issuer_table_update:
  "issuer_table_ok X rows \<Longrightarrow> stored X h \<Longrightarrow> issuer_table_ok X (update_root name h rows)"
  by (fastforce simp: issuer_table_ok_def dest: set_update_root)

lemma nullifier_table_names: "nullifier_table_ok names rows \<Longrightarrow> nullifier_table_ok (names @ [n]) rows"
  by (auto simp: nullifier_table_ok_def)

lemma issuer_names_upd [simp]:
  "issuer_names (d\<lparr> leaf_rows := rows \<rparr>) = issuer_names d"
  "issuer_names (d\<lparr> nullifier_rows := nrows \<rparr>) = issuer_names d"
  "issuer_names (d\<lparr> issuer_rows := update_root n h (issuer_rows d) \<rparr>) = issuer_names d"
  "issuer_names (d\<lparr> issuer_rows := issuer_rows d @ [(n, None)] \<rparr>) = issuer_names d @ [n]"
  by (simp_all add: issuer_names_def)

lemma sql_eval_store_ok [store_inv]:
  assumes "sql_eval s d = Some (res, d')" "sql_ok X s" "store_ok X d"
  shows "store_ok X d'"
proof (cases s)
  case (InsertIssuer n)
  then show ?thesis
    using assms leaf_table_names [of X "issuer_names d" "leaf_rows d" n]
      issuer_table_insert [of X "issuer_rows d" n] nullifier_table_names [of "issuer_names d" "nullifier_rows d" n]
    by (auto simp: sql_eval_def store_ok_def issuer_names_def split: if_splits)
next
  case (UpdateRoot n h)
  then show ?thesis
    using assms issuer_table_update [of X "issuer_rows d" h n]
    by (auto simp: sql_eval_def store_ok_def sql_ok_def)
next
  case (InsertNullifier i n)
  then show ?thesis
    using assms by (fastforce simp: sql_eval_def store_ok_def nullifier_table_ok_def split: if_splits)
qed (use assms in \<open>auto simp: sql_eval_def\<close>)

text \<open>Statements outside a transaction never touch the leaves and never remove an issuer.\<close>

lemma sql_eval_monotone:
  assumes "sql_eval s d = Some (res, d')"
  shows "leaf_rows d' = leaf_rows d \<and> set (issuer_names d) \<subseteq> set (issuer_names d') \<and>
    collation d' = collation d"
  using assms
  by (cases s) (auto simp: sql_eval_def split: if_splits)

lemma sql_eval_abs_leaves: "sql_eval s d = Some (res, d') \<Longrightarrow> abs_leaves X d' = abs_leaves X d"
  by (simp add: abs_leaves_def fun_eq_iff sql_eval_monotone)

lemma sql_eval_abs_published:
  assumes "sql_eval s d = Some (res, d')"
  shows "abs_published X d' =
    (case s of
       UpdateRoot n h \<Rightarrow>
         if n \<in> set (issuer_names d) then (abs_published X d)(n \<mapsto> stored_fr X h) else abs_published X d
     | _ \<Rightarrow> abs_published X d)"
proof (cases s)
  case (InsertIssuer n)
  then show ?thesis
    using assms
    by (auto simp: sql_eval_def abs_published_def fun_eq_iff map_add_def issuer_names_def
        split: if_splits option.splits)
next
  case (UpdateRoot n h)
  then have d': "d' = d\<lparr> issuer_rows := update_root n h (issuer_rows d) \<rparr>"
    using assms by (simp add: sql_eval_def)
  show ?thesis
  proof (cases "map_of (issuer_rows d) n")
    case None
    then have "n \<notin> set (issuer_names d)" by (simp add: issuer_names_def map_of_eq_None_iff)
    with None UpdateRoot show ?thesis
      by (auto simp: d' abs_published_def fun_eq_iff map_of_update)
  next
    case (Some r)
    then have "n \<in> set (issuer_names d)"
      by (auto simp: issuer_names_def dest: map_of_SomeD intro: rev_image_eqI)
    with Some UpdateRoot show ?thesis
      by (auto simp: d' abs_published_def fun_eq_iff map_of_update)
  qed
qed (use assms in \<open>auto simp: sql_eval_def abs_published_def split: if_splits\<close>)

fun is_db :: "store_error \<Rightarrow> bool" where
  "is_db (Db t) = True"
| "is_db _ = False"

definition is_db_error :: "store_error + 'a \<Rightarrow> bool" where
  "is_db_error r = (case r of Inl e \<Rightarrow> is_db e | Inr _ \<Rightarrow> False)"

lemma is_db_error_simps [simp]: "is_db_error (Inl e) = is_db e" "\<not> is_db_error (Inr x)"
  by (simp_all add: is_db_error_def)

subsection \<open>The contract of the store\<close>

text \<open>
  What the API relies on, over any state \<open>'s\<close> with its own execution of requests: the content as
  the leaves and the published root of each issuer; reads return the content or fail; writes take
  effect or fail, and a failed write may or may not have taken effect. \<open>calm\<close> states do not fail.
\<close>

locale tree_store =
  fixes X :: "('pk, 'rng, 'z) externs_scheme"
    and ex :: "request \<Rightarrow> 's \<Rightarrow> reply \<times> 's"
    and ok calm :: "'s \<Rightarrow> bool"
    and content :: "'s \<Rightarrow> string \<Rightarrow> fr list"
    and published :: "'s \<Rightarrow> string \<Rightarrow> fr option"
  assumes capacity: "ok s \<Longrightarrow> length (content s i) \<le> CAPACITY"
    and leaves_law:
      "ok s \<Longrightarrow> run_on ex (stored_leaves X i) s = (rl, s') \<Longrightarrow>
        ok s' \<and> content s' = content s \<and> published s' = published s \<and>
        (rl = Inr (content s i) \<or> is_db_error rl \<and> \<not> calm s) \<and> (calm s \<longrightarrow> calm s')"
    and published_law:
      "ok s \<Longrightarrow> run_on ex (published_root X i) s = (rp, s') \<Longrightarrow>
        ok s' \<and> content s' = content s \<and> published s' = published s \<and>
        (rp = Inr (published s i) \<or> is_db_error rp \<and> \<not> calm s) \<and> (calm s \<longrightarrow> calm s')"
    and publish_law:
      "ok s \<Longrightarrow> run_on ex (set_published_root X i f) s = (ru, s') \<Longrightarrow>
        ok s' \<and> content s' = content s \<and>
        (ru = Inr () \<and> published s' = (published s)(i \<mapsto> f) \<or>
         is_db_error ru \<and> \<not> calm s \<and> (published s' = published s \<or> published s' = (published s)(i \<mapsto> f))) \<and>
        (calm s \<longrightarrow> calm s')"
    and add_leaf_law:
      "ok s \<Longrightarrow> run_on ex (add_leaf X i f) s = (ra, s') \<Longrightarrow>
        ok s' \<and> published s' = published s \<and>
        (if CAPACITY \<le> length (content s i)
         then content s' = content s \<and> (ra = Inl StoreFull \<or> is_db_error ra \<and> \<not> calm s)
         else ra = Inr (length (content s i), length (content s i) + 1) \<and>
                content s' = (content s)(i := content s i @ [f]) \<or>
              is_db_error ra \<and> \<not> calm s \<and>
                (content s' = content s \<or> content s' = (content s)(i := content s i @ [f]))) \<and>
        (calm s \<longrightarrow> calm s')"
    and record_law:
      "ok s \<Longrightarrow> run_on ex (record_nullifier X i f) s = (rn, s') \<Longrightarrow>
        ok s' \<and> content s' = content s \<and> published s' = published s \<and> (calm s \<longrightarrow> calm s')"
    and blocking_law:
      "ok s \<Longrightarrow> ex Blocking s = (rb, s') \<Longrightarrow>
        ok s' \<and> content s' = content s \<and> published s' = published s \<and> (calm s \<longrightarrow> calm s')"

subsection \<open>The store keeps its contract\<close>

definition conn_ok :: "('pk, 'rng, 'z) externs_scheme \<Rightarrow> conn \<Rightarrow> bool" where
  "conn_ok X c \<longleftrightarrow> tx c = None \<and> store_ok X (db c)"

definition conn_calm :: "conn \<Rightarrow> bool" where
  "conn_calm c \<longleftrightarrow> faults c = []"

lemma conn_exec_calm: "conn_exec rq c = (r, c') \<Longrightarrow> conn_calm c \<longrightarrow> conn_calm c'"
  by (auto simp: conn_exec_def conn_calm_def split: prod.splits)

lemma run_on_calm: "run_on conn_exec p c = (r, c') \<Longrightarrow> conn_calm c \<longrightarrow> conn_calm c'"
proof (induction p arbitrary: c)
  case (Call rq k)
  then show ?case using conn_exec_calm [of rq c] by (auto split: prod.splits)
qed simp

text \<open>The three outcomes of a statement: served, refused, served with the reply lost.\<close>

lemma run_query:
  assumes "run_on conn_exec (query s f) c = (r, c')" "sql_eval s (db c) = Some (res, d')"
  shows "tx c' = tx c \<and> (conn_calm c \<longrightarrow> conn_calm c') \<and>
    (r = f res \<and> db c' = d' \<or> is_db_error r \<and> \<not> conn_calm c \<and> (db c' = db c \<or> db c' = d'))"
  using assms
  by (cases "faults c"; cases "hd (faults c)")
    (auto simp: query_def conn_exec_def exec_def next_fault_def conn_calm_def)

lemma run_query_failed:
  assumes "run_on conn_exec (query s f) c = (r, c')" "sql_eval s (db c) = None"
  shows "tx c' = tx c \<and> (conn_calm c \<longrightarrow> conn_calm c') \<and> is_db_error r \<and> db c' = db c"
  using assms
  by (cases "faults c"; cases "hd (faults c)")
    (auto simp: query_def conn_exec_def exec_def next_fault_def conn_calm_def)

lemma collect_stored:
  "\<forall>h \<in> set hs. stored X h \<Longrightarrow> collect_r (from_hex X) hs = Inr (map (stored_fr X) hs)"
  by (rule collect_r_all) (simp add: stored_from_hex)

lemma collect_rows:
  assumes "store_ok X d"
  shows "collect_r (from_hex X) (map row_commitment (rows_of i (leaf_rows d))) = Inr (abs_leaves X d i)"
proof -
  have "\<forall>h \<in> set (map row_commitment (rows_of i (leaf_rows d))). stored X h"
    using assms by (auto simp: store_ok_def leaf_table_ok_def set_rows_of)
  then show ?thesis by (simp add: collect_stored abs_leaves_def)
qed

lemma select_leaves:
  assumes "store_ok X d"
  shows "order_by position_le (rows_of i (leaf_rows d)) = rows_of i (leaf_rows d)"
  using assms rows_of_ok issuer_leaves_sorted order_by_sorted by (metis store_ok_def)

lemma run_stored_leaves:
  assumes "conn_ok X c" "run_on conn_exec (stored_leaves X i) c = (r, c')"
  shows "tx c' = None \<and> db c' = db c \<and> (conn_calm c \<longrightarrow> conn_calm c') \<and>
    (r = Inr (abs_leaves X (db c) i) \<or> is_db_error r \<and> \<not> conn_calm c)"
  using assms run_query [OF assms(2) [unfolded stored_leaves_def]] collect_rows [of X "db c" i]
  by (auto simp: sql_eval_def conn_ok_def strings_def select_leaves)

lemma published_row:
  assumes "store_ok X d"
  shows "try_r (optional (Row (map_of (issuer_rows d) i))) (\<lambda>row.
      case Option.bind row (\<lambda>r. r) of
        Some s \<Rightarrow> try_r (from_hex X s) (\<lambda>f. Inr (Some f)) | None \<Rightarrow> Inr None) =
    (Inr (abs_published X d i) :: store_error + fr option)"
proof (cases "map_of (issuer_rows d) i")
  case (Some r)
  then have "(i, r) \<in> set (issuer_rows d)" by (rule map_of_SomeD)
  then have "case r of None \<Rightarrow> True | Some h \<Rightarrow> stored X h"
    using assms by (auto simp: store_ok_def issuer_table_ok_def)
  with Some show ?thesis
    by (cases r) (simp_all add: optional_def abs_published_def stored_from_hex)
qed (simp add: optional_def abs_published_def)

lemma run_published_root:
  assumes "conn_ok X c" "run_on conn_exec (published_root X i) c = (r, c')"
  shows "tx c' = None \<and> db c' = db c \<and> (conn_calm c \<longrightarrow> conn_calm c') \<and>
    (r = Inr (abs_published X (db c) i) \<or> is_db_error r \<and> \<not> conn_calm c)"
  using assms(1) published_row [of X "db c" i]
    run_query [OF assms(2) [unfolded published_root_def], of "Row (map_of (issuer_rows (db c)) i)" "db c"]
  by (auto simp: sql_eval_def conn_ok_def)

text \<open>The transaction: the position is the number of rows, and the row is appended or nothing changes.\<close>

lemma conn_exec_Begin:
  "conn_exec Begin c =
     (answer (next_fault (faults c)) (Result Done),
      c\<lparr> tx := (if next_fault (faults c) = Fine then Some [] else None), faults := tl (faults c) \<rparr>)"
  by (simp add: conn_exec_def exec_def)

lemma conn_exec_Tx:
  "tx c = Some pending \<Longrightarrow> db c = d \<Longrightarrow> tx_eval s pending d = Some (res, pending') \<Longrightarrow>
     conn_exec (Tx s) c =
       (answer (next_fault (faults c)) (Result res),
        c\<lparr> tx := (if next_fault (faults c) = Fine then Some pending' else None), faults := tl (faults c) \<rparr>)"
  by (simp add: conn_exec_def exec_def)

lemma conn_exec_Commit:
  "tx c = Some pending \<Longrightarrow>
     conn_exec Commit c =
       (answer (next_fault (faults c)) (Result Done),
        c\<lparr> tx := None, faults := tl (faults c),
           db := (if acts (next_fault (faults c))
                  then db c\<lparr> leaf_rows := leaf_rows (db c) @ pending \<rparr> else db c) \<rparr>)"
  by (simp add: conn_exec_def exec_def)

lemma run_abort:
  "run_on conn_exec (abort e) c = (Inl e, c\<lparr> tx := None, faults := tl (faults c) \<rparr>)"
  by (simp add: abort_def conn_exec_def exec_def)

definition new_row :: "('pk, 'rng, 'z) externs_scheme \<Rightarrow> database \<Rightarrow> string \<Rightarrow> fr \<Rightarrow> leaf_row" where
  "new_row X d i f =
     \<lparr> row_issuer = i, row_position = of_nat (length (rows_of i (leaf_rows d))),
       row_commitment = to_hex X f \<rparr>"

definition append_row :: "leaf_row \<Rightarrow> database \<Rightarrow> database" where
  "append_row r d = d\<lparr> leaf_rows := leaf_rows d @ [r] \<rparr>"

lemma new_row_fresh:
  assumes "store_ok X d" "length (rows_of i (leaf_rows d)) < CAPACITY"
  shows "row_key (new_row X d i f) \<notin> set (map row_key (leaf_rows d))"
proof
  assume "row_key (new_row X d i f) \<in> set (map row_key (leaf_rows d))"
  then obtain r where r: "r \<in> set (rows_of i (leaf_rows d))"
      "row_position r = of_nat (length (rows_of i (leaf_rows d)))"
    by (auto simp: row_key_def new_row_def set_rows_of)
  have ok: "issuer_leaves_ok (rows_of i (leaf_rows d))"
    using assms(1) rows_of_ok by (auto simp: store_ok_def)
  obtain k where k: "k < length (rows_of i (leaf_rows d))" "rows_of i (leaf_rows d) ! k = r"
    using r(1) by (auto simp: in_set_conv_nth)
  then have "(of_nat k :: int4) = of_nat (length (rows_of i (leaf_rows d)))"
    using issuer_leaves_nth [OF ok k(1)] r(2) by simp
  then show False using k(1) assms(2) by (simp add: of_nat_pos_inj)
qed

context hex_codec
begin

lemma append_row_ok:
  assumes "store_ok X d" "i \<in> set (issuer_names d)" "length (rows_of i (leaf_rows d)) < CAPACITY"
  shows "store_ok X (append_row (new_row X d i f) d)"
  using assms leaf_table_append [of X "issuer_names d" "leaf_rows d" "new_row X d i f"]
  by (simp add: store_ok_def append_row_def new_row_def stored_to_hex)

lemma append_row_abs:
  "abs_leaves X (append_row (new_row X d i f) d) = (abs_leaves X d)(i := abs_leaves X d i @ [f])"
  "abs_published X (append_row r d) = abs_published X d"
  by (auto simp: abs_leaves_def append_row_def new_row_def rows_of_single stored_fr_to_hex fun_eq_iff
      abs_published_def)

lemma run_append_in_tx:
  assumes ok: "conn_ok X c" and i: "i \<in> set (issuer_names (db c))"
    and run: "run_on conn_exec (append_in_tx X i f) c = (r, c')"
  shows "tx c' = None \<and> (conn_calm c \<longrightarrow> conn_calm c') \<and>
    (let n = length (rows_of i (leaf_rows (db c))); d' = append_row (new_row X (db c) i f) (db c) in
     if CAPACITY \<le> n then db c' = db c \<and> (r = Inl StoreFull \<or> is_db_error r \<and> \<not> conn_calm c)
     else r = Inr (n, n + 1) \<and> db c' = d' \<or>
          is_db_error r \<and> \<not> conn_calm c \<and> (db c' = db c \<or> db c' = d'))"
proof -
  let ?n = "length (rows_of i (leaf_rows (db c)))"
  have n: "?n \<le> CAPACITY"
    using ok abs_leaves_bound [of X "db c" i] by (simp add: conn_ok_def abs_leaves_length)
  have usize: "as_usize (of_nat ?n) = ?n" using n by (simp add: as_usize_def of_nat_small)
  have ins: "?n < CAPACITY \<Longrightarrow>
      tx_eval (TxInsertLeaf i (of_nat ?n) (to_hex X f)) [] (db c) = Some (Done, [new_row X (db c) i f])"
    using i new_row_fresh [of X "db c" i f] ok
    by (simp add: tx_eval_def Let_def conn_ok_def new_row_def)
  have cnt: "tx_eval (TxCountLeaves i) [] (db c) = Some (Number (of_nat ?n), [])"
    by (simp add: tx_eval_def rows_of_def)
  note steps = append_in_tx_def conn_exec_Begin conn_exec_Tx [OF _ _ cnt] conn_exec_Tx [OF _ _ ins]
    conn_exec_Commit run_abort usize scalar_def count_as_i32 [OF n] position_as_usize [OF n]
    append_row_def Let_def
  let ?f1 = "next_fault (faults c)" and ?f2 = "next_fault (tl (faults c))"
    and ?f3 = "next_fault (tl (tl (faults c)))" and ?f4 = "next_fault (tl (tl (tl (faults c))))"
  have calm: "conn_calm c \<longrightarrow> conn_calm c' \<and> ?f1 = Fine \<and> ?f2 = Fine \<and> ?f3 = Fine \<and> ?f4 = Fine"
    using run_on_calm [OF run] by (auto simp: conn_calm_def next_fault_def)
  consider "?f1 \<noteq> Fine" | "?f1 = Fine" "?f2 \<noteq> Fine" | "?f1 = Fine" "?f2 = Fine" "CAPACITY \<le> ?n"
    | "?f1 = Fine" "?f2 = Fine" "?n < CAPACITY" "?f3 \<noteq> Fine"
    | "?f1 = Fine" "?f2 = Fine" "?n < CAPACITY" "?f3 = Fine"
    by fastforce
  then show ?thesis
  proof cases
    case 1
    then show ?thesis using run calm by (cases ?f1) (auto simp: steps)
  next
    case 2
    then show ?thesis using run calm by (cases ?f2) (auto simp: steps)
  next
    case 3
    then show ?thesis using run calm by (auto simp: steps)
  next
    case 4
    then show ?thesis using run calm by (cases ?f3) (auto simp: steps)
  next
    case 5
    then show ?thesis using run calm by (cases ?f4) (auto simp: steps)
  qed
qed

lemma run_ensure_issuer:
  assumes ok: "conn_ok X c" and run: "run_on conn_exec (ensure_issuer i) c = (r, c')"
  shows "conn_ok X c' \<and> leaf_rows (db c') = leaf_rows (db c) \<and>
    abs_published X (db c') = abs_published X (db c) \<and> (conn_calm c \<longrightarrow> conn_calm c') \<and>
    (r = Inr () \<and> i \<in> set (issuer_names (db c')) \<or> is_db_error r \<and> \<not> conn_calm c)"
proof -
  obtain d' where d': "sql_eval (InsertIssuer i) (db c) = Some (Done, d')" "i \<in> set (issuer_names d')"
    by (cases "i \<in> set (issuer_names (db c))") (simp_all add: sql_eval_def)
  have "sql_ok X (InsertIssuer i)" by (simp add: sql_ok_def)
  then show ?thesis
    using ok d'(2) run_query [OF run [unfolded ensure_issuer_def] d'(1)] sql_eval_store_ok [OF d'(1), of X]
      sql_eval_monotone [OF d'(1)] sql_eval_abs_published [OF d'(1), of X]
    by (auto simp: conn_ok_def no_rows_def)
qed

lemma run_add_leaf:
  assumes ok: "conn_ok X c" and run: "run_on conn_exec (add_leaf X i f) c = (r, c')"
  shows "conn_ok X c' \<and> abs_published X (db c') = abs_published X (db c) \<and>
    (if CAPACITY \<le> length (abs_leaves X (db c) i)
     then abs_leaves X (db c') = abs_leaves X (db c) \<and>
       (r = Inl StoreFull \<or> is_db_error r \<and> \<not> conn_calm c)
     else r = Inr (length (abs_leaves X (db c) i), length (abs_leaves X (db c) i) + 1) \<and>
            abs_leaves X (db c') = (abs_leaves X (db c))(i := abs_leaves X (db c) i @ [f]) \<or>
          is_db_error r \<and> \<not> conn_calm c \<and>
            (abs_leaves X (db c') = abs_leaves X (db c) \<or>
             abs_leaves X (db c') = (abs_leaves X (db c))(i := abs_leaves X (db c) i @ [f]))) \<and>
    (conn_calm c \<longrightarrow> conn_calm c')"
proof -
  obtain r1 c1 where e: "run_on conn_exec (ensure_issuer i) c = (r1, c1)" by (rule prod.exhaust)
  note e1 = run_ensure_issuer [OF ok e]
  have leaves: "abs_leaves X (db c1) = abs_leaves X (db c)"
    using e1 by (simp add: abs_leaves_def fun_eq_iff)
  show ?thesis
  proof (cases r1)
    case (Inl err)
    then have "c' = c1" "r = Inl err" using run e by (simp_all add: add_leaf_def run_bind_ok)
    with e1 leaves Inl show ?thesis by auto
  next
    case (Inr u)
    then have run1: "run_on conn_exec (append_in_tx X i f) c1 = (r, c')"
      using run e by (simp add: add_leaf_def run_bind_ok)
    have i: "i \<in> set (issuer_names (db c1))" and ok1: "conn_ok X c1" using e1 Inr by auto
    have st: "store_ok X (db c1)" using ok1 by (simp add: conn_ok_def)
    note res = run_append_in_tx [OF ok1 i run1, unfolded Let_def
        abs_leaves_length [of X "db c1" i, symmetric]]
    show ?thesis
    proof (cases "CAPACITY \<le> length (abs_leaves X (db c1) i)")
      case True
      with res e1 leaves st show ?thesis by (auto simp: conn_ok_def)
    next
      case False
      let ?d = "append_row (new_row X (db c1) i f) (db c1)"
      have d: "store_ok X ?d" "abs_published X ?d = abs_published X (db c)"
        "abs_leaves X ?d = (abs_leaves X (db c))(i := abs_leaves X (db c) i @ [f])"
        using append_row_ok [OF st i] False e1 leaves
        by (simp_all add: append_row_abs) (simp add: abs_leaves_length)
      have c: "tx c' = None" "conn_calm c \<longrightarrow> conn_calm c'" using res e1 by blast+
      consider "r = Inr (length (abs_leaves X (db c) i), length (abs_leaves X (db c) i) + 1)" "db c' = ?d"
        | "is_db_error r" "\<not> conn_calm c" "db c' = db c1" | "is_db_error r" "\<not> conn_calm c" "db c' = ?d"
        using res False e1 leaves by (simp only: if_False) blast
      then show ?thesis
        by cases (use c d st e1 leaves False in \<open>simp_all add: conn_ok_def\<close>)
    qed
  qed
qed

lemma run_set_published_root:
  assumes ok: "conn_ok X c" and run: "run_on conn_exec (set_published_root X i f) c = (r, c')"
  shows "conn_ok X c' \<and> abs_leaves X (db c') = abs_leaves X (db c) \<and>
    (r = Inr () \<and> abs_published X (db c') = (abs_published X (db c))(i \<mapsto> f) \<or>
     is_db_error r \<and> \<not> conn_calm c \<and>
       (abs_published X (db c') = abs_published X (db c) \<or>
        abs_published X (db c') = (abs_published X (db c))(i \<mapsto> f))) \<and>
    (conn_calm c \<longrightarrow> conn_calm c')"
proof -
  obtain r1 c1 where e: "run_on conn_exec (ensure_issuer i) c = (r1, c1)" by (rule prod.exhaust)
  note e1 = run_ensure_issuer [OF ok e]
  have leaves: "abs_leaves X (db c1) = abs_leaves X (db c)"
    using e1 by (simp add: abs_leaves_def fun_eq_iff)
  show ?thesis
  proof (cases r1)
    case (Inl err)
    then have "c' = c1" "r = Inl err" using run e by (simp_all add: set_published_root_def run_bind_ok)
    with e1 leaves Inl show ?thesis by auto
  next
    case (Inr u)
    then have run1: "run_on conn_exec (query (UpdateRoot i (to_hex X f)) no_rows) c1 = (r, c')"
      using run e by (simp add: set_published_root_def run_bind_ok)
    obtain d' where d': "sql_eval (UpdateRoot i (to_hex X f)) (db c1) = Some (Done, d')"
      by (simp add: sql_eval_def)
    have "sql_ok X (UpdateRoot i (to_hex X f))" by (simp add: sql_ok_def stored_to_hex)
    then have "store_ok X d'"
      using e1 sql_eval_store_ok [OF d', of X] by (simp add: conn_ok_def)
    moreover have "abs_published X d' = (abs_published X (db c))(i \<mapsto> f)"
      using e1 Inr sql_eval_abs_published [OF d', of X] by (auto simp: stored_fr_to_hex)
    ultimately show ?thesis
      using e1 Inr leaves run_query [OF run1 d'] sql_eval_abs_leaves [OF d', of X]
      by (auto simp: conn_ok_def no_rows_def)
  qed
qed

lemma run_record_nullifier:
  assumes ok: "conn_ok X c" and run: "run_on conn_exec (record_nullifier X i f) c = (r, c')"
  shows "conn_ok X c' \<and> abs_leaves X (db c') = abs_leaves X (db c) \<and>
    abs_published X (db c') = abs_published X (db c) \<and> (conn_calm c \<longrightarrow> conn_calm c')"
proof (cases "sql_eval (InsertNullifier i (to_hex X f)) (db c)")
  case None
  then show ?thesis
    using ok run_query_failed [OF run [unfolded record_nullifier_def]] by (auto simp: conn_ok_def)
next
  case (Some p)
  then obtain res d' where d': "sql_eval (InsertNullifier i (to_hex X f)) (db c) = Some (res, d')"
    by (cases p) auto
  have "store_ok X d'" "abs_published X d' = abs_published X (db c)"
    using ok sql_eval_store_ok [OF d', of X] sql_eval_abs_published [OF d', of X]
    by (simp_all add: sql_ok_def conn_ok_def)
  then show ?thesis
    using ok run_query [OF run [unfolded record_nullifier_def] d'] sql_eval_abs_leaves [OF d', of X]
    by (auto simp: conn_ok_def)
qed

end

text \<open>A computation elsewhere leaves the connection as it is.\<close>

lemma run_blocking:
  "conn_ok X c \<Longrightarrow> conn_exec Blocking c = (r, c') \<Longrightarrow>
     conn_ok X c' \<and> abs_leaves X (db c') = abs_leaves X (db c) \<and> abs_published X (db c') = abs_published X (db c) \<and>
     (conn_calm c \<longrightarrow> conn_calm c')"
  by (auto simp: conn_exec_def exec_def conn_ok_def conn_calm_def)

sublocale hex_codec \<subseteq> pg: tree_store X conn_exec "conn_ok X" conn_calm
  "\<lambda>c. abs_leaves X (db c)" "\<lambda>c. abs_published X (db c)"
proof (unfold_locales, goal_cases)
  case 1
  then show ?case by (simp add: conn_ok_def abs_leaves_bound)
next
  case (2 c i r c')
  then show ?case using run_stored_leaves [OF 2] by (auto simp: conn_ok_def)
next
  case (3 c i r c')
  then show ?case using run_published_root [OF 3] by (auto simp: conn_ok_def)
qed (fact run_set_published_root run_add_leaf run_record_nullifier run_blocking)+

end
