(* ===== verification/Constraint_System.thy ===== *)
theory Constraint_System
  imports Circuit
begin

text \<open>
  A concrete rank-one constraint system with the documented behaviour of \<open>ark-relations\<close> and of
  the field and boolean gadgets of \<open>ark-r1cs-std\<close>: variables are linear combinations, a product
  of two variables is a fresh witness with one constraint, a boolean witness is constrained to
  \<open>b * (1 - b) = 0\<close>, selection adds one constraint. It interprets the three locales of \<open>Circuit\<close>,
  so every property of the circuit holds for it, and it is where the field's primality is used: the
  boolean constraint has no solutions but 0 and 1.
\<close>

subsection \<open>Linear combinations, constraints, synthesis state\<close>

datatype variable = One | Instance nat | Witness nat

type_synonym lin_comb = "(fr \<times> variable) list"

type_synonym rank1 = "lin_comb \<times> lin_comb \<times> lin_comb"

text \<open>An assignment gives the public inputs and the witness variables their values.\<close>

record assignment =
  instance_of :: "nat \<Rightarrow> fr"
  witness_of :: "nat \<Rightarrow> fr"

fun var_val :: "assignment \<Rightarrow> variable \<Rightarrow> fr" where
  "var_val a One = 1"
| "var_val a (Instance i) = instance_of a i"
| "var_val a (Witness i) = witness_of a i"

definition lc_val :: "assignment \<Rightarrow> lin_comb \<Rightarrow> fr" where
  "lc_val a lc = sum_list (map (\<lambda>(k, v). k * var_val a v) lc)"

definition rank1_holds :: "assignment \<Rightarrow> rank1 \<Rightarrow> bool" where
  "rank1_holds a c = (case c of (p, q, r) \<Rightarrow> lc_val a p * lc_val a q = lc_val a r)"

text \<open>
  The synthesis state: the mode, the constraints so far, and the values of the variables so far
  (during setup the values are not computed, only their number counts).
\<close>

record synthesis =
  setup_mode :: bool
  instances :: "fr list"
  witnesses :: "fr list"
  constraints :: "rank1 list"

definition new_synthesis :: "bool \<Rightarrow> synthesis" where
  "new_synthesis setup = \<lparr> setup_mode = setup, instances = [], witnesses = [], constraints = [] \<rparr>"

definition list_val :: "fr list \<Rightarrow> nat \<Rightarrow> fr" where
  "list_val xs i = (if i < length xs then xs ! i else 0)"

definition own_assignment :: "synthesis \<Rightarrow> assignment" where
  "own_assignment s = \<lparr> instance_of = list_val (instances s), witness_of = list_val (witnesses s) \<rparr>"

definition satisfied_by :: "synthesis \<Rightarrow> assignment \<Rightarrow> bool" where
  "satisfied_by s a = list_all (rank1_holds a) (constraints s)"

subsection \<open>The gadget operations\<close>

definition neg_lc :: "lin_comb \<Rightarrow> lin_comb" where
  "neg_lc lc = map (\<lambda>(k, v). (- k, v)) lc"

definition enforce :: "lin_comb \<Rightarrow> lin_comb \<Rightarrow> lin_comb \<Rightarrow> synthesis \<Rightarrow> synthesis" where
  "enforce p q r s = s\<lparr> constraints := constraints s @ [(p, q, r)] \<rparr>"

definition alloc_instance :: "synthesis_error + fr \<Rightarrow> synthesis \<Rightarrow> synthesis_error + lin_comb \<times> synthesis" where
  "alloc_instance r s =
     (let v = [(1, Instance (length (instances s)))]
      in if setup_mode s then Inr (v, s\<lparr> instances := instances s @ [0] \<rparr>)
         else try_r r (\<lambda>x. Inr (v, s\<lparr> instances := instances s @ [x] \<rparr>)))"

definition alloc_witness :: "synthesis_error + fr \<Rightarrow> synthesis \<Rightarrow> synthesis_error + lin_comb \<times> synthesis" where
  "alloc_witness r s =
     (let v = [(1, Witness (length (witnesses s)))]
      in if setup_mode s then Inr (v, s\<lparr> witnesses := witnesses s @ [0] \<rparr>)
         else try_r r (\<lambda>x. Inr (v, s\<lparr> witnesses := witnesses s @ [x] \<rparr>)))"

definition alloc_bool :: "synthesis_error + bool \<Rightarrow> synthesis \<Rightarrow> synthesis_error + lin_comb \<times> synthesis" where
  "alloc_bool r s =
     try_r (alloc_witness (try_r r (\<lambda>d. Inr (if d then 1 else 0))) s) (\<lambda>(b, s).
     Inr (b, enforce ((1, One) # neg_lc b) b [] s))"

text \<open>A fresh witness whose value is known to the prover.\<close>

definition fresh :: "fr \<Rightarrow> synthesis \<Rightarrow> lin_comb \<times> synthesis" where
  "fresh x s =
     ([(1, Witness (length (witnesses s)))],
      s\<lparr> witnesses := witnesses s @ [if setup_mode s then 0 else x] \<rparr>)"

definition lc_mul :: "lin_comb \<Rightarrow> lin_comb \<Rightarrow> synthesis \<Rightarrow> lin_comb \<times> synthesis" where
  "lc_mul x y s =
     (let (z, s') = fresh (lc_val (own_assignment s) x * lc_val (own_assignment s) y) s
      in (z, enforce x y z s'))"

definition lc_select :: "lin_comb \<Rightarrow> lin_comb \<Rightarrow> lin_comb \<Rightarrow> synthesis \<Rightarrow> synthesis_error + lin_comb \<times> synthesis" where
  "lc_select b x y s =
     (let a = own_assignment s;
          (z, s') = fresh (if lc_val a b = 1 then lc_val a x else lc_val a y) s
      in Inr (z, enforce b (x @ neg_lc y) (z @ neg_lc y) s'))"

definition lc_enforce_equal :: "lin_comb \<Rightarrow> lin_comb \<Rightarrow> synthesis \<Rightarrow> synthesis_error + synthesis" where
  "lc_enforce_equal x y s = Inr (enforce (x @ neg_lc y) [(1, One)] [] s)"

definition r1cs :: "(lin_comb, lin_comb, synthesis) constraint_api" where
  "r1cs =
     \<lparr> new_input = alloc_instance, new_witness = alloc_witness, new_bool = alloc_bool,
       new_constant = (\<lambda>c. [(c, One)]), add_var = (@), mul_var = lc_mul,
       select_var = lc_select, enforce_equal = lc_enforce_equal \<rparr>"

lemma r1cs_sel [simp]:
  "new_input r1cs = alloc_instance" "new_witness r1cs = alloc_witness" "new_bool r1cs = alloc_bool"
  "new_constant r1cs = (\<lambda>c. [(c, One)])" "add_var r1cs = (@)" "mul_var r1cs = lc_mul"
  "select_var r1cs = lc_select" "enforce_equal r1cs = lc_enforce_equal"
  by (simp_all add: r1cs_def)

subsection \<open>Values of linear combinations\<close>

lemma lc_val_simps [simp]:
  "lc_val a [] = 0"
  "lc_val a ((k, v) # lc) = k * var_val a v + lc_val a lc"
  "lc_val a (p @ q) = lc_val a p + lc_val a q"
  by (simp_all add: lc_val_def)

lemma lc_val_neg [simp]: "lc_val a (neg_lc lc) = - lc_val a lc"
  by (induction lc) (auto simp: neg_lc_def)

lemma satisfied_by_enforce [simp]:
  "satisfied_by (enforce p q r s) a \<longleftrightarrow> satisfied_by s a \<and> lc_val a p * lc_val a q = lc_val a r"
  by (auto simp: satisfied_by_def enforce_def rank1_holds_def)

lemma enforce_fields [simp]:
  "instances (enforce p q r s) = instances s" "witnesses (enforce p q r s) = witnesses s"
  "setup_mode (enforce p q r s) = setup_mode s"
  "own_assignment (enforce p q r s) = own_assignment s"
  by (simp_all add: enforce_def own_assignment_def)

lemma satisfied_by_alloc [simp]:
  "satisfied_by (s\<lparr> instances := xs \<rparr>) a = satisfied_by s a"
  "satisfied_by (s\<lparr> witnesses := xs \<rparr>) a = satisfied_by s a"
  by (simp_all add: satisfied_by_def)

subsection \<open>Soundness laws\<close>

text \<open>The boolean a boolean variable stands for; under its constraint it is 0 or 1.\<close>

definition lc_bool :: "assignment \<Rightarrow> lin_comb \<Rightarrow> bool" where
  "lc_bool a b = (lc_val a b = 1)"

definition lc_is_bit :: "assignment \<Rightarrow> lin_comb \<Rightarrow> bool" where
  "lc_is_bit a b \<longleftrightarrow> lc_val a b = 0 \<or> lc_val a b = 1"

lemma alloc_instance_Inr:
  "alloc_instance r s = Inr (v, s') \<Longrightarrow>
     v = [(1, Instance (length (instances s)))] \<and> (\<exists>x. s' = s\<lparr> instances := instances s @ [x] \<rparr>)"
  by (auto simp: alloc_instance_def Let_def result_iffs split: if_splits)

lemma alloc_witness_Inr:
  "alloc_witness r s = Inr (v, s') \<Longrightarrow>
     v = [(1, Witness (length (witnesses s)))] \<and> (\<exists>x. s' = s\<lparr> witnesses := witnesses s @ [x] \<rparr>)"
  by (auto simp: alloc_witness_def Let_def result_iffs split: if_splits)

interpretation r1cs_laws: constraint_laws r1cs satisfied_by lc_val lc_is_bit lc_bool instance_of
    "\<lambda>s. length (instances s)"
proof (unfold_locales, goal_cases)
  case (1 r s v s' a)
  then show ?case by (auto dest!: alloc_instance_Inr)
next
  case (2 r s v s' a)
  then show ?case by (auto dest!: alloc_witness_Inr)
next
  case (3 rb s b s' a)
  then show ?case
    by (auto simp: alloc_bool_def result_iffs lc_is_bit_def dest!: alloc_witness_Inr)
next
  case (6 x y s z s' a)
  then show ?case by (auto simp: lc_mul_def fresh_def Let_def)
next
  case (7 b x y s z s' a)
  then show ?case
    by (auto simp: lc_select_def fresh_def Let_def lc_is_bit_def lc_bool_def algebra_simps)
next
  case (8 x y s s' a)
  then show ?case by (auto simp: lc_enforce_equal_def)
qed simp_all

subsection \<open>Completeness laws\<close>

fun var_in :: "synthesis \<Rightarrow> variable \<Rightarrow> bool" where
  "var_in s One = True"
| "var_in s (Instance i) = (i < length (instances s))"
| "var_in s (Witness i) = (i < length (witnesses s))"

definition scoped :: "synthesis \<Rightarrow> lin_comb \<Rightarrow> bool" where
  "scoped s lc \<longleftrightarrow> (\<forall>(k, v) \<in> set lc. var_in s v)"

definition well_scoped :: "synthesis \<Rightarrow> bool" where
  "well_scoped s \<longleftrightarrow> (\<forall>(p, q, r) \<in> set (constraints s). scoped s p \<and> scoped s q \<and> scoped s r)"

definition extends :: "synthesis \<Rightarrow> synthesis \<Rightarrow> bool" where
  "extends s t \<longleftrightarrow> (\<exists>xs ys. instances t = instances s @ xs \<and> witnesses t = witnesses s @ ys)"

definition honest :: "synthesis \<Rightarrow> bool" where
  "honest s \<longleftrightarrow> \<not> setup_mode s \<and> well_scoped s \<and> satisfied_by s (own_assignment s)"

definition known :: "synthesis \<Rightarrow> lin_comb \<Rightarrow> fr \<Rightarrow> bool" where
  "known s lc x \<longleftrightarrow> scoped s lc \<and> lc_val (own_assignment s) lc = x"

definition known_bit :: "synthesis \<Rightarrow> lin_comb \<Rightarrow> bool \<Rightarrow> bool" where
  "known_bit s lc d \<longleftrightarrow> known s lc (if d then 1 else 0)"

lemma scoped_simps [simp]:
  "scoped s []"
  "scoped s ((k, v) # lc) \<longleftrightarrow> var_in s v \<and> scoped s lc"
  "scoped s (p @ q) \<longleftrightarrow> scoped s p \<and> scoped s q"
  "scoped s (neg_lc lc) \<longleftrightarrow> scoped s lc"
  by (auto simp: scoped_def neg_lc_def)

lemma scoped_enforce [simp]: "scoped (enforce p q r s) lc \<longleftrightarrow> scoped s lc"
proof -
  have "var_in (enforce p q r s) v = var_in s v" for v by (cases v) simp_all
  then show ?thesis by (simp add: scoped_def)
qed

lemma var_in_extends: "extends s t \<Longrightarrow> var_in s v \<Longrightarrow> var_in t v"
  by (cases v) (auto simp: extends_def)

lemma var_val_extends:
  "extends s t \<Longrightarrow> var_in s v \<Longrightarrow> var_val (own_assignment t) v = var_val (own_assignment s) v"
  by (cases v) (auto simp: extends_def own_assignment_def list_val_def nth_append)

lemma lc_extends:
  assumes "extends s t" "scoped s lc"
  shows "scoped t lc" "lc_val (own_assignment t) lc = lc_val (own_assignment s) lc"
  using assms by (induction lc) (auto simp: var_in_extends var_val_extends)

lemma honest_extends:
  assumes "honest s" "extends s t" "constraints t = constraints s" "setup_mode t = setup_mode s"
  shows "honest t"
proof -
  have c: "scoped t p \<and> scoped t q \<and> scoped t r \<and> rank1_holds (own_assignment t) (p, q, r)"
    if "(p, q, r) \<in> set (constraints s)" for p q r
  proof -
    have "scoped s p" "scoped s q" "scoped s r" "rank1_holds (own_assignment s) (p, q, r)"
      using assms(1) that by (auto simp: honest_def well_scoped_def satisfied_by_def list_all_iff)
    then show ?thesis using lc_extends [OF assms(2)] by (simp add: rank1_holds_def)
  qed
  show ?thesis using assms c by (fastforce simp: honest_def well_scoped_def satisfied_by_def list_all_iff)
qed

lemma honest_enforce:
  assumes "honest s" "scoped s p" "scoped s q" "scoped s r"
    and "lc_val (own_assignment s) p * lc_val (own_assignment s) q = lc_val (own_assignment s) r"
  shows "honest (enforce p q r s)"
  using assms by (auto simp: honest_def well_scoped_def) (auto simp: enforce_def)

lemma extends_trans: "extends s t \<Longrightarrow> extends t u \<Longrightarrow> extends s u"
  by (auto simp: extends_def)

lemma extends_enforce [simp]: "extends s (enforce p q r t) \<longleftrightarrow> extends s t"
  by (simp add: extends_def)

lemma known_enforce [simp]: "known (enforce p q r s) lc x \<longleftrightarrow> known s lc x"
  by (simp add: known_def)

text \<open>Allocating a witness (or an instance) with a value keeps a prover honest.\<close>

lemma witness_push:
  assumes "honest s" "t = s\<lparr> witnesses := witnesses s @ [x] \<rparr>"
  shows "honest t \<and> extends s t \<and> known t [(1, Witness (length (witnesses s)))] x"
proof -
  have e: "extends s t" using assms(2) by (simp add: extends_def)
  with assms show ?thesis
    by (auto intro: honest_extends simp: known_def own_assignment_def list_val_def)
qed

lemma instance_push:
  assumes "honest s" "t = s\<lparr> instances := instances s @ [x] \<rparr>"
  shows "honest t \<and> extends s t \<and> known t [(1, Instance (length (instances s)))] x"
proof -
  have e: "extends s t" using assms(2) by (simp add: extends_def)
  with assms show ?thesis
    by (auto intro: honest_extends simp: known_def own_assignment_def list_val_def)
qed

lemma fresh_honest:
  assumes "honest s" "fresh x s = (z, t)"
  shows "honest t \<and> extends s t \<and> known t z x \<and> instances t = instances s"
  using assms witness_push [OF assms(1) refl, of x]
  by (auto simp: fresh_def honest_def)

lemma knownD: "known s lc x \<Longrightarrow> scoped s lc" "known s lc x \<Longrightarrow> lc_val (own_assignment s) lc = x"
  by (simp_all add: known_def)

lemma known_mono: "known s lc x \<Longrightarrow> extends s t \<Longrightarrow> known t lc x"
  using lc_extends by (simp add: known_def)

lemma lc_mul_honest:
  assumes "honest s" "known s v x" "known s w y" "lc_mul v w s = (z, t)"
  shows "honest t \<and> extends s t \<and> known t z (x * y) \<and> instances t = instances s"
proof -
  obtain u where u: "fresh (x * y) s = (z, u)" "t = enforce v w z u"
    using assms by (auto simp: lc_mul_def knownD split: prod.splits)
  note f = fresh_honest [OF assms(1) u(1)]
  have "known u v x" "known u w y" using f assms(2,3) by (auto intro: known_mono)
  with f show ?thesis by (auto simp: u(2) knownD intro: honest_enforce)
qed

lemma lc_select_honest:
  assumes "honest s" "known_bit s b d" "known s v x" "known s w y" "lc_select b v w s = Inr (z, t)"
  shows "honest t \<and> extends s t \<and> known t z (if d then x else y) \<and> instances t = instances s"
proof -
  have b: "known s b (if d then 1 else 0)" using assms(2) by (simp add: known_bit_def)
  obtain u where u: "fresh (if d then x else y) s = (z, u)" "t = enforce b (v @ neg_lc w) (z @ neg_lc w) u"
    using assms(3-5) knownD(2) [OF b]
    by (auto simp: lc_select_def Let_def knownD split: prod.splits if_splits)
  note f = fresh_honest [OF assms(1) u(1)]
  have "known u b (if d then 1 else 0)" "known u v x" "known u w y"
    using f b assms(3,4) by (auto intro: known_mono)
  with f show ?thesis
    by (auto simp: u(2) knownD split: if_splits intro!: honest_enforce)
qed

interpretation r1cs_proving: proving_laws r1cs honest known known_bit extends instances
proof (unfold_locales, goal_cases)
  case (3 s v x t)
  then show ?case by (rule known_mono)
next
  case (4 s b d t)
  then show ?case unfolding known_bit_def by (rule known_mono)
next
  case (5 s x)
  then show ?case
    using instance_push [OF 5 refl, of x] by (auto simp: alloc_instance_def honest_def Let_def)
next
  case (6 s x)
  then show ?case
    using witness_push [OF 6 refl, of x] by (auto simp: alloc_witness_def honest_def Let_def)
next
  case (7 s d)
  let ?t = "s\<lparr> witnesses := witnesses s @ [if d then 1 else 0] \<rparr>"
  let ?b = "[(1, Witness (length (witnesses s)))]"
  have w: "honest ?t" "extends s ?t" "known ?t ?b (if d then 1 else 0)"
    using witness_push [OF 7 refl] by auto
  have "honest (enforce ((1, One) # neg_lc ?b) ?b [] ?t)"
    using w(1,3) by (intro honest_enforce) (auto simp: knownD neg_lc_def known_def)
  moreover have "alloc_bool (Inr d) s = Inr (?b, enforce ((1, One) # neg_lc ?b) ?b [] ?t)"
    using 7 by (simp add: alloc_bool_def alloc_witness_def honest_def)
  ultimately show ?case using w by (simp add: known_bit_def)
next
  case (10 s v x w y)
  obtain z t where "lc_mul v w s = (z, t)" by fastforce
  with lc_mul_honest [OF 10 this] show ?case by auto
next
  case (11 s b d v x w y)
  obtain z t where "lc_select b v w s = Inr (z, t)" by (simp add: lc_select_def fresh_def Let_def)
  with lc_select_honest [OF 11 this] show ?case by auto
next
  case (12 s v x w)
  then show ?case
    by (auto simp: lc_enforce_equal_def knownD extends_def intro!: honest_enforce)
qed (auto simp: extends_def known_def known_bit_def honest_def alloc_instance_def alloc_witness_def
    alloc_bool_def Let_def intro: extends_trans)

subsection \<open>Setup laws\<close>

definition mirrors :: "synthesis \<Rightarrow> synthesis \<Rightarrow> bool" where
  "mirrors s t \<longleftrightarrow> setup_mode s \<and> constraints s = constraints t \<and>
     length (instances s) = length (instances t) \<and> length (witnesses s) = length (witnesses t)"

interpretation r1cs_setup: setup_laws r1cs mirrors
proof (unfold_locales, goal_cases)
  case (1 s t r v t' r')
  with alloc_instance_Inr [of r t v t'] show ?case
    by (auto simp: mirrors_def alloc_instance_def [of r'] Let_def)
next
  case (2 s t r v t' r')
  with alloc_witness_Inr [of r t v t'] show ?case
    by (auto simp: mirrors_def alloc_witness_def [of r'] Let_def)
next
  case (3 s t rb b t' rb')
  then obtain u r where "alloc_witness r t = Inr (b, u)" "t' = enforce ((1, One) # neg_lc b) b [] u"
    by (auto simp: alloc_bool_def result_iffs)
  with 3(1) alloc_witness_Inr [of r t b u] show ?case
    by (auto simp: mirrors_def alloc_bool_def alloc_witness_def [of _ s] enforce_def Let_def)
qed (auto simp: mirrors_def lc_mul_def lc_select_def lc_enforce_equal_def fresh_def enforce_def Let_def)

lemma new_synthesis_simps [simp]:
  "instances (new_synthesis m) = []" "setup_mode (new_synthesis m) = m"
  "honest (new_synthesis False)" "mirrors (new_synthesis True) (new_synthesis m)"
  by (simp_all add: new_synthesis_def honest_def well_scoped_def satisfied_by_def mirrors_def)

text \<open>
  The circuit on this constraint system: the constraints of the setup, the constraints and values of
  a prover.
\<close>

definition setup_constraints :: "fr list \<Rightarrow> synthesis_error + synthesis" where
  "setup_constraints cs = generate_constraints r1cs (empty_circuit cs) (new_synthesis True)"

definition prover_constraints :: "merkle_circuit \<Rightarrow> synthesis_error + synthesis" where
  "prover_constraints circ = generate_constraints r1cs circ (new_synthesis False)"

end
