(* ===== verification/Crypto.thy ===== *)
theory Crypto
  imports Externs Constraint_System Merkle
begin

text \<open>
  The trust-critical core of \<open>src/crypto/mod.rs\<close>: the key pair and its persistence, the digest
  of the verifying key, commitments and nullifiers, and the proof generation with its self-check.
  The file system is a map from paths to contents with a fault oracle.
\<close>

subsection \<open>Commitment, nullifier, address\<close>

definition leaf_commitment :: "fr \<Rightarrow> fr" where
  "leaf_commitment secret = hash2 secret (fr_from LEAF_DOMAIN) round_constants"

definition nullifier :: "fr \<Rightarrow> fr" where
  "nullifier secret = hash2 secret (fr_from NULLIFIER_DOMAIN) round_constants"

definition address_field :: "('pk, 'rng, 'z) externs_scheme \<Rightarrow> string \<Rightarrow> fr" where
  "address_field X strkey = from_be_bytes_mod_order (sha256 X (as_bytes strkey))"

subsection \<open>Keys\<close>

record 'pk keys =
  pk :: 'pk
  vk :: verifying_key

definition encoded_vk :: "'pk keys \<Rightarrow> encoded_verifying_key" where
  "encoded_vk k = encoded_vk_from_arkworks (vk k)"

text \<open>The bytes fed to the digest, in the order of the \<open>update\<close> calls.\<close>

definition vk_digest_input :: "encoded_verifying_key \<Rightarrow> u8 list" where
  "vk_digest_input e =
     enc_alpha_g1 e @ enc_beta_g2 e @ enc_gamma_g2 e @ enc_delta_g2 e @ concat (enc_ic e)"

definition vk_digest :: "('pk, 'rng, 'z) externs_scheme \<Rightarrow> 'pk keys \<Rightarrow> u8 list" where
  "vk_digest X k = sha256 X (vk_digest_input (encoded_vk k))"

lemma vk_digest_input_inj:
  assumes "vk_canonical (vk k1)" "vk_canonical (vk k2)"
    and "vk_digest_input (encoded_vk k1) = vk_digest_input (encoded_vk k2)"
  shows "vk k1 = vk k2"
proof -
  have "enc_alpha_g1 (encoded_vk k1) = enc_alpha_g1 (encoded_vk k2)"
    "enc_beta_g2 (encoded_vk k1) = enc_beta_g2 (encoded_vk k2)"
    "enc_gamma_g2 (encoded_vk k1) = enc_gamma_g2 (encoded_vk k2)"
    "enc_delta_g2 (encoded_vk k1) = enc_delta_g2 (encoded_vk k2)"
    and ic: "concat (enc_ic (encoded_vk k1)) = concat (enc_ic (encoded_vk k2))"
    using assms(3) by (simp_all add: vk_digest_input_def encoded_vk_def encoded_vk_from_arkworks_def)
  moreover have "enc_ic (encoded_vk k1) = enc_ic (encoded_vk k2)"
    by (rule concat_fixed_inj [OF _ _ _ ic, where w = 64])
      (auto simp: encoded_vk_def encoded_vk_from_arkworks_def)
  ultimately have "encoded_vk_from_arkworks (vk k1) = encoded_vk_from_arkworks (vk k2)"
    by (simp add: encoded_vk_def)
  with assms(1,2) show ?thesis by (rule encoded_vk_inj)
qed

text \<open>
  The file system: contents by path, the paths that cannot be read, and the paths on which writing
  or creating fails, with the content that the failure leaves behind (a failed write may have
  truncated the file).
\<close>

record file_system =
  files :: "string \<Rightarrow> u8 list option"
  unreadable :: "string \<Rightarrow> bool"
  write_fault :: "string \<Rightarrow> u8 list option option"

datatype key_io_error = Io | Serialization

definition path_join :: "string \<Rightarrow> string \<Rightarrow> string" where
  "path_join dir name =
     (if dir = [] then name else if last dir = CHR ''/'' then dir @ name else dir @ ''/'' @ name)"

definition fs_create_dir_all :: "string \<Rightarrow> file_system \<Rightarrow> key_io_error + unit" where
  "fs_create_dir_all dir fs = (if write_fault fs dir = None then Inr () else Inl Io)"

definition fs_write :: "string \<Rightarrow> u8 list \<Rightarrow> file_system \<Rightarrow> (key_io_error + unit) \<times> file_system" where
  "fs_write path bs fs =
     (case write_fault fs path of
        None \<Rightarrow> (Inr (), fs\<lparr> files := (files fs)(path \<mapsto> bs) \<rparr>)
      | Some left \<Rightarrow> (Inl Io, fs\<lparr> files := (files fs)(path := left) \<rparr>))"

definition fs_read :: "string \<Rightarrow> file_system \<Rightarrow> key_io_error + u8 list" where
  "fs_read path fs = (if unreadable fs path then Inl Io else ok_or Io (files fs path))"

text \<open>\<open>Keys::save\<close> returns its result and the file system it leaves, also when it fails half way.\<close>

definition save_keys ::
  "('pk, 'rng, 'z) externs_scheme \<Rightarrow> 'pk keys \<Rightarrow> string \<Rightarrow> file_system \<Rightarrow> (key_io_error + unit) \<times> file_system" where
  "save_keys X k dir fs =
     (case fs_create_dir_all dir fs of Inl e \<Rightarrow> (Inl e, fs) | Inr _ \<Rightarrow>
     (case fs_write (path_join dir ''pk.bin'') (pk_to_bytes X (pk k)) fs of (Inl e, fs1) \<Rightarrow> (Inl e, fs1) | (Inr _, fs1) \<Rightarrow>
     fs_write (path_join dir ''vk.bin'') (vk_to_bytes X (vk k)) fs1))"

definition from_bytes :: "('pk, 'rng, 'z) externs_scheme \<Rightarrow> u8 list \<Rightarrow> u8 list \<Rightarrow> key_io_error + 'pk keys" where
  "from_bytes X pk_bytes vk_bytes =
     try_r (ok_or Serialization (pk_from_bytes X pk_bytes)) (\<lambda>p.
     try_r (ok_or Serialization (vk_from_bytes X vk_bytes)) (\<lambda>v.
     Inr \<lparr> pk = p, vk = v \<rparr>))"

definition load_keys :: "('pk, 'rng, 'z) externs_scheme \<Rightarrow> string \<Rightarrow> file_system \<Rightarrow> key_io_error + 'pk keys" where
  "load_keys X dir fs =
     try_r (fs_read (path_join dir ''pk.bin'') fs) (\<lambda>pk_bytes.
     try_r (fs_read (path_join dir ''vk.bin'') fs) (\<lambda>vk_bytes.
     from_bytes X pk_bytes vk_bytes))"

definition DEV_SETUP_SEED :: "64 word" where
  "DEV_SETUP_SEED = 0xF00DBEEF"

definition trusted_setup :: "('pk, 'rng, 'z) externs_scheme \<Rightarrow> 'rng \<Rightarrow> 'pk keys \<times> 'rng" where
  "trusted_setup X rng =
     (let circuit = empty_circuit round_constants;
          ((p, v), rng) = groth_setup X circuit rng
      in (\<lparr> pk = p, vk = v \<rparr>, rng))"

text \<open>The operating system's generator is the argument of the production setup.\<close>

definition generate_secure :: "('pk, 'rng, 'z) externs_scheme \<Rightarrow> 'rng \<Rightarrow> 'pk keys" where
  "generate_secure X os_rng = fst (trusted_setup X os_rng)"

definition dev_keys :: "('pk, 'rng, 'z) externs_scheme \<Rightarrow> 'pk keys" where
  "dev_keys X = fst (trusted_setup X (seed_from_u64 X DEV_SETUP_SEED))"

subsection \<open>Proving\<close>

datatype crypto_error = NotAMember | ProvingFailed

record membership_proof =
  mp_proof :: encoded_proof
  mp_root :: "u8 list"
  mp_nullifier :: "u8 list"

text \<open>A panic of the circuit's closures is not an error value: \<open>prove\<close> panics with it.\<close>

definition proving_failure :: "synthesis_error \<Rightarrow> crypto_error failure" where
  "proving_failure e = (case e of IndexPanic \<Rightarrow> Panicked | AssignmentMissing \<Rightarrow> Failed ProvingFailed)"

definition prove ::
  "('pk, 'rng, 'z) externs_scheme \<Rightarrow> 'pk keys \<Rightarrow> merkle_tree \<Rightarrow> fr \<Rightarrow> string \<Rightarrow> 'rng \<Rightarrow>
     (crypto_error failure + membership_proof) \<times> 'rng" where
  "prove X k tree secret holder_strkey rng =
     (let leaf = leaf_commitment secret in
      case position (\<lambda>l. l = leaf) (leaves tree) of None \<Rightarrow> (Inl (Failed NotAMember), rng)
      | Some index \<Rightarrow>
     (case map_err (map_failure (\<lambda>_. NotAMember)) (witness tree index) of Inl e \<Rightarrow> (Inl e, rng)
      | Inr w \<Rightarrow>
     (case tree_root tree of None \<Rightarrow> (Inl Panicked, rng)
      | Some root \<Rightarrow>
      let null = nullifier secret;
          addr = address_field X holder_strkey;
          circuit =
            \<lparr> mc_constants = round_constants, mc_root = Some root, mc_nullifier = Some null,
              mc_addr = Some addr, mc_secret = Some secret,
              mc_path_elements = Some (path_elements w), mc_path_indices = Some (path_indices w) \<rparr>;
          (proved, rng) = groth_prove X (pk k) circuit rng
      in (try_r (map_err proving_failure proved) (\<lambda>proof.
          let public_inputs = [root, null, addr] in
          try_r (map_err (\<lambda>_. Failed ProvingFailed) (groth_verify X (vk k) public_inputs proof)) (\<lambda>ok.
          if \<not> ok then Inl (Failed ProvingFailed)
          else Inr \<lparr> mp_proof = encoded_proof_from_arkworks proof, mp_root = fr_be root,
                     mp_nullifier = fr_be null \<rparr>)),
          rng))))"

text \<open>\<open>verify(..).unwrap_or(false)\<close>.\<close>

definition verify_local ::
  "('pk, 'rng, 'z) externs_scheme \<Rightarrow> 'pk keys \<Rightarrow> groth_proof \<Rightarrow> fr \<Rightarrow> fr \<Rightarrow> fr \<Rightarrow> bool" where
  "verify_local X k proof root null addr =
     (case groth_verify X (vk k) [root, null, addr] proof of Inl _ \<Rightarrow> False | Inr ok \<Rightarrow> ok)"

subsection \<open>What the program relies on\<close>

text \<open>
  Completeness of Groth16, as documented: keys from the setup of the witness-free circuit prove
  every circuit instance whose synthesis succeeds with satisfied constraints, and the proof
  verifies for the instance's public inputs.
\<close>

definition synthesizes :: "merkle_circuit \<Rightarrow> fr list \<Rightarrow> bool" where
  "synthesizes circ inputs \<longleftrightarrow>
     (case prover_constraints circ of Inl _ \<Rightarrow> False
      | Inr s \<Rightarrow> satisfied_by s (own_assignment s) \<and> instances s = inputs)"

definition groth16_complete :: "('pk, 'rng, 'z) externs_scheme \<Rightarrow> bool" where
  "groth16_complete X \<longleftrightarrow>
     (\<forall>cs rng p v rng' circ inputs rng2.
        groth_setup X (empty_circuit cs) rng = ((p, v), rng') \<longrightarrow>
        mc_constants circ = cs \<longrightarrow> synthesizes circ inputs \<longrightarrow>
        (\<exists>proof rng3. groth_prove X p circ rng2 = (Inr proof, rng3) \<and>
           groth_verify X v inputs proof = Inr True))"

text \<open>Reading back what \<open>serialize_uncompressed\<close> wrote.\<close>

definition key_serialization :: "('pk, 'rng, 'z) externs_scheme \<Rightarrow> bool" where
  "key_serialization X \<longleftrightarrow>
     (\<forall>p. pk_from_bytes X (pk_to_bytes X p) = Some p) \<and>
     (\<forall>v. vk_from_bytes X (vk_to_bytes X v) = Some v)"

subsection \<open>Properties of the circuit on the constraint system\<close>

text \<open>A prover's synthesis for a true statement succeeds, is satisfied, and has the three inputs.\<close>

lemma prover_constraints_complete:
  assumes "membership_statement (mc_constants circ) root null secret (zip es ds)"
    and "length es = DEPTH" "length ds = DEPTH"
    and "mc_root circ = Some root" "mc_nullifier circ = Some null" "mc_addr circ = Some addr"
      "mc_secret circ = Some secret" "mc_path_elements circ = Some es" "mc_path_indices circ = Some ds"
  shows "\<exists>s. prover_constraints circ = Inr s \<and> satisfied_by s (own_assignment s) \<and>
    instances s = [root, null, addr]"
proof -
  obtain s where "generate_constraints r1cs circ (new_synthesis False) = Inr s" "honest s"
      "instances s = instances (new_synthesis False) @ [root, null, addr]"
    using r1cs_proving.generate_constraints_complete [OF assms new_synthesis_simps(3)] by blast
  then show ?thesis by (auto simp: prover_constraints_def honest_def)
qed

lemma synthesizes_honest:
  assumes "membership_statement (mc_constants circ) root null secret (zip es ds)"
    and "length es = DEPTH" "length ds = DEPTH"
    and "mc_root circ = Some root" "mc_nullifier circ = Some null" "mc_addr circ = Some addr"
      "mc_secret circ = Some secret" "mc_path_elements circ = Some es" "mc_path_indices circ = Some ds"
  shows "synthesizes circ [root, null, addr]"
  using prover_constraints_complete [OF assms] by (auto simp: synthesizes_def)

text \<open>The setup records what any prover of the same constants records.\<close>

lemma setup_mirrors_prover:
  assumes "prover_constraints circ = Inr t"
  shows "\<exists>s. setup_constraints (mc_constants circ) = Inr s \<and> mirrors s t"
  unfolding setup_constraints_def
  by (rule r1cs_setup.mirror_generate_constraints [OF new_synthesis_simps(4)])
    (use assms in \<open>simp_all add: prover_constraints_def empty_circuit_def\<close>)

definition trivial_circuit :: "fr list \<Rightarrow> fr \<Rightarrow> fr \<Rightarrow> (fr \<times> bool) list \<Rightarrow> fr \<Rightarrow> merkle_circuit" where
  "trivial_circuit cs secret addr path root =
     \<lparr> mc_constants = cs, mc_root = Some root,
       mc_nullifier = Some (hash2 secret (fr_from NULLIFIER_DOMAIN) cs), mc_addr = Some addr,
       mc_secret = Some secret, mc_path_elements = Some (map fst path),
       mc_path_indices = Some (map snd path) \<rparr>"

lemma setup_realises:
  assumes "membership_statement cs root null secret path"
  shows "\<exists>s a. setup_constraints cs = Inr s \<and> length (instances s) = 3 \<and> satisfied_by s a \<and>
    instance_of a 0 = root \<and> instance_of a 1 = null \<and> instance_of a 2 = addr"
proof -
  let ?circ = "trivial_circuit cs secret addr path root"
  have zip: "zip (map fst path) (map snd path) = path" by (simp add: zip_map_fst_snd)
  have "\<exists>t. prover_constraints ?circ = Inr t \<and> satisfied_by t (own_assignment t) \<and>
      instances t = [root, null, addr]"
    by (rule prover_constraints_complete [where es = "map fst path" and ds = "map snd path" and secret = secret])
      (use assms in \<open>simp_all add: trivial_circuit_def zip membership_statement_def\<close>)
  then obtain t where t: "prover_constraints ?circ = Inr t" "satisfied_by t (own_assignment t)"
      "instances t = [root, null, addr]" by blast
  obtain s where s: "setup_constraints cs = Inr s" "mirrors s t"
    using setup_mirrors_prover [OF t(1)] by (auto simp: trivial_circuit_def)
  have "satisfied_by s (own_assignment t)" using t(2) s(2) by (simp add: satisfied_by_def mirrors_def)
  moreover have "length (instances s) = 3" using s(2) t(3) by (simp add: mirrors_def)
  moreover have "instance_of (own_assignment t) 0 = root" "instance_of (own_assignment t) 1 = null"
    "instance_of (own_assignment t) 2 = addr"
    by (simp_all add: own_assignment_def list_val_def t(3))
  ultimately show ?thesis using s(1) by blast
qed

lemma setup_sound:
  assumes "setup_constraints cs = Inr s" "satisfied_by s a"
  shows "\<exists>secret path. membership_statement cs (instance_of a 0) (instance_of a 1) secret path"
  using r1cs_laws.generate_constraints_sound [of "empty_circuit cs" "new_synthesis True" s a] assms
  by (simp add: setup_constraints_def empty_circuit_def)

lemma membership_statement_exists:
  "\<exists>root null. membership_statement cs root null secret (replicate DEPTH (0, False))"
  by (simp add: membership_statement_def)

subsection \<open>The proof generation\<close>

definition prove_circuit :: "('pk, 'rng, 'z) externs_scheme \<Rightarrow> fr \<Rightarrow> fr \<Rightarrow> string \<Rightarrow> merkle_witness \<Rightarrow> merkle_circuit" where
  "prove_circuit X root secret holder w =
     \<lparr> mc_constants = round_constants, mc_root = Some root, mc_nullifier = Some (nullifier secret),
       mc_addr = Some (address_field X holder), mc_secret = Some secret,
       mc_path_elements = Some (path_elements w), mc_path_indices = Some (path_indices w) \<rparr>"

text \<open>What \<open>prove\<close> does with the outcome of Groth16: the self-check and the encoding.\<close>

definition checked_proof ::
  "('pk, 'rng, 'z) externs_scheme \<Rightarrow> 'pk keys \<Rightarrow> fr \<Rightarrow> fr \<Rightarrow> fr \<Rightarrow> synthesis_error + groth_proof \<Rightarrow>
     crypto_error failure + membership_proof" where
  "checked_proof X k root null addr proved =
     try_r (map_err proving_failure proved) (\<lambda>proof.
     try_r (map_err (\<lambda>_. Failed ProvingFailed) (groth_verify X (vk k) [root, null, addr] proof)) (\<lambda>ok.
     if \<not> ok then Inl (Failed ProvingFailed)
     else Inr \<lparr> mp_proof = encoded_proof_from_arkworks proof, mp_root = fr_be root,
                mp_nullifier = fr_be null \<rparr>))"

lemma checked_proof_cases:
  "checked_proof X k root null addr proved = Inl (Failed ProvingFailed) \<or>
   checked_proof X k root null addr proved = Inl Panicked \<or>
   (\<exists>proof. proved = Inr proof \<and> groth_verify X (vk k) [root, null, addr] proof = Inr True \<and>
      checked_proof X k root null addr proved =
        Inr \<lparr> mp_proof = encoded_proof_from_arkworks proof, mp_root = fr_be root,
              mp_nullifier = fr_be null \<rparr>)"
proof (cases proved)
  case (Inr pf)
  then show ?thesis
    by (cases "groth_verify X (vk k) [root, null, addr] pf") (simp_all add: checked_proof_def)
qed (simp add: checked_proof_def proving_failure_def split: synthesis_error.splits)

text \<open>On a tree within its capacity, a member's request reaches Groth16 with the tree's witness.\<close>

lemma prove_member:
  assumes i: "position (\<lambda>l. l = leaf_commitment secret) (leaves t) = Some i"
    and len: "length (leaves t) \<le> CAPACITY"
  shows "\<exists>w. witness t i = Inr w \<and>
    prove X k t secret holder rng =
      (let (proved, rng2) = groth_prove X (pk k) (prove_circuit X (abs_root t) secret holder w) rng in
       (checked_proof X k (abs_root t) (nullifier secret) (address_field X holder) proved, rng2))"
proof -
  have "i < length (leaves t)" using position_SomeD [OF i] by simp
  then obtain w where w: "witness t i = Inr w" using witness_correct [OF _ len] by blast
  show ?thesis
    by (rule exI [of _ w])
      (simp add: prove_def i w tree_root_abs prove_circuit_def checked_proof_def Let_def)
qed

lemma prove_not_member:
  "leaf_commitment secret \<notin> set (leaves t) \<Longrightarrow> prove X k t secret holder rng = (Inl (Failed NotAMember), rng)"
proof -
  assume "leaf_commitment secret \<notin> set (leaves t)"
  then have "position (\<lambda>l. l = leaf_commitment secret) (leaves t) = None"
    by (auto simp: position_None_iff)
  then show ?thesis by (simp add: prove_def)
qed

lemma position_member:
  "x \<in> set xs \<Longrightarrow> \<exists>i. position (\<lambda>l. l = x) xs = Some i \<and> i < length xs \<and> xs ! i = x"
  using position_exists [of x xs "\<lambda>l. l = x"] position_SomeD by fastforce

lemma prove_result_cases:
  assumes len: "length (leaves t) \<le> CAPACITY" and r: "prove X k t secret holder rng = (r, rng')"
  shows "if leaf_commitment secret \<in> set (leaves t)
    then r = Inl (Failed ProvingFailed) \<or> r = Inl Panicked \<or> (\<exists>proof.
      groth_verify X (vk k) [abs_root t, nullifier secret, address_field X holder] proof = Inr True \<and>
      r = Inr \<lparr> mp_proof = encoded_proof_from_arkworks proof, mp_root = fr_be (abs_root t),
                mp_nullifier = fr_be (nullifier secret) \<rparr>)
    else r = Inl (Failed NotAMember)"
proof (cases "leaf_commitment secret \<in> set (leaves t)")
  case True
  obtain i where i: "position (\<lambda>l. l = leaf_commitment secret) (leaves t) = Some i"
    using position_member [OF True] by (elim exE conjE)
  obtain w where w: "prove X k t secret holder rng =
      (let (proved, rng2) = groth_prove X (pk k) (prove_circuit X (abs_root t) secret holder w) rng in
       (checked_proof X k (abs_root t) (nullifier secret) (address_field X holder) proved, rng2))"
    using prove_member [OF i len, of X k holder rng] by blast
  obtain proved rng2 where
    g: "groth_prove X (pk k) (prove_circuit X (abs_root t) secret holder w) rng = (proved, rng2)"
    by (rule prod.exhaust)
  have "r = checked_proof X k (abs_root t) (nullifier secret) (address_field X holder) proved"
    using w r unfolding g by simp
  with True show ?thesis
    using checked_proof_cases [of X k "abs_root t" "nullifier secret" "address_field X holder" proved]
    by (simp only: if_True) blast
next
  case False
  then show ?thesis using r prove_not_member [of secret t X k holder rng] by simp
qed

text \<open>An honest tree's witness satisfies the statement of the circuit.\<close>

lemma witness_statement:
  assumes "i < length (leaves t)" "length (leaves t) \<le> CAPACITY" "constants t = round_constants"
    and "leaves t ! i = leaf_commitment secret" and "witness t i = Inr w"
  shows "membership_statement round_constants (abs_root t) (nullifier secret) secret
      (zip (path_elements w) (path_indices w))"
    and "length (path_elements w) = DEPTH" "length (path_indices w) = DEPTH"
  using witness_correct [OF assms(1,2)] assms(3-5)
  by (auto simp: membership_statement_def nullifier_def leaf_commitment_def)

lemma prove_succeeds:
  assumes X: "groth16_complete X" and k: "trusted_setup X rng0 = (k, rng1)"
    and t: "length (leaves t) \<le> CAPACITY" "constants t = round_constants"
    and member: "leaf_commitment secret \<in> set (leaves t)"
  shows "\<exists>mp rng'. prove X k t secret holder rng = (Inr mp, rng')"
proof -
  obtain i where i: "position (\<lambda>l. l = leaf_commitment secret) (leaves t) = Some i" "i < length (leaves t)"
      "leaves t ! i = leaf_commitment secret"
    using position_member [OF member] by (elim exE conjE)
  obtain w where w: "witness t i = Inr w" and p: "prove X k t secret holder rng =
      (let (proved, rng2) = groth_prove X (pk k) (prove_circuit X (abs_root t) secret holder w) rng in
       (checked_proof X k (abs_root t) (nullifier secret) (address_field X holder) proved, rng2))"
    using prove_member [OF i(1) t(1), of X k holder rng] by blast
  note st = witness_statement [OF i(2) t i(3) w]
  have syn: "synthesizes (prove_circuit X (abs_root t) secret holder w)
      [abs_root t, nullifier secret, address_field X holder]"
    by (rule synthesizes_honest [where es = "path_elements w" and ds = "path_indices w" and secret = secret])
      (use st in \<open>simp_all add: prove_circuit_def\<close>)
  obtain v rng2 where s: "groth_setup X (empty_circuit round_constants) rng0 = ((pk k, v), rng2)" "vk k = v"
    using k by (auto simp: trusted_setup_def split: prod.splits)
  have "mc_constants (prove_circuit X (abs_root t) secret holder w) = round_constants"
    by (simp add: prove_circuit_def)
  then obtain pf rng3 where
    "groth_prove X (pk k) (prove_circuit X (abs_root t) secret holder w) rng = (Inr pf, rng3)"
    "groth_verify X v [abs_root t, nullifier secret, address_field X holder] pf = Inr True"
    using X [unfolded groth16_complete_def, rule_format, OF s(1) _ syn] by blast
  with p s(2) show ?thesis by (simp add: checked_proof_def)
qed

end
