(* ===== verification/Text.thy ===== *)
theory Text
  imports Externs
begin

text \<open>
  The operations of Rust's \<open>str\<close> the program uses on configuration and command lines. A string is
  the list of its UTF-8 bytes, so white space (\<open>char::is_whitespace\<close>) is a list of byte sequences.
\<close>

subsection \<open>White space\<close>

text \<open>
  The UTF-8 encodings of the code points with the property \<open>White_Space\<close>: U+0009 to U+000D,
  U+0020, U+0085, U+00A0, U+1680, U+2000 to U+200A, U+2028, U+2029, U+202F, U+205F and U+3000.
\<close>

definition whitespace :: "string list" where
  "whitespace =
     [[CHR 0x09], [CHR 0x0A], [CHR 0x0B], [CHR 0x0C], [CHR 0x0D], [CHR 0x20],
      [CHR 0xC2, CHR 0x85], [CHR 0xC2, CHR 0xA0], [CHR 0xE1, CHR 0x9A, CHR 0x80],
      [CHR 0xE2, CHR 0x80, CHR 0x80], [CHR 0xE2, CHR 0x80, CHR 0x81],
      [CHR 0xE2, CHR 0x80, CHR 0x82], [CHR 0xE2, CHR 0x80, CHR 0x83],
      [CHR 0xE2, CHR 0x80, CHR 0x84], [CHR 0xE2, CHR 0x80, CHR 0x85],
      [CHR 0xE2, CHR 0x80, CHR 0x86], [CHR 0xE2, CHR 0x80, CHR 0x87],
      [CHR 0xE2, CHR 0x80, CHR 0x88], [CHR 0xE2, CHR 0x80, CHR 0x89],
      [CHR 0xE2, CHR 0x80, CHR 0x8A], [CHR 0xE2, CHR 0x80, CHR 0xA8],
      [CHR 0xE2, CHR 0x80, CHR 0xA9], [CHR 0xE2, CHR 0x80, CHR 0xAF],
      [CHR 0xE2, CHR 0x81, CHR 0x9F], [CHR 0xE3, CHR 0x80, CHR 0x80]]"

definition starts_with :: "string \<Rightarrow> string \<Rightarrow> bool" where
  "starts_with w s \<longleftrightarrow> take (length w) s = w"

definition ends_with :: "string \<Rightarrow> string \<Rightarrow> bool" where
  "ends_with w s \<longleftrightarrow> starts_with (rev w) (rev s)"

lemma whitespace_nonempty: "w \<in> set whitespace \<Longrightarrow> w \<noteq> []"
  by (auto simp: whitespace_def)

function strip_all :: "string list \<Rightarrow> string \<Rightarrow> string" where
  "strip_all ws s =
     (case find (\<lambda>w. w \<noteq> [] \<and> starts_with w s) ws of
        None \<Rightarrow> s
      | Some w \<Rightarrow> strip_all ws (drop (length w) s))"
  by pat_completeness auto
termination
  by (relation "measure (\<lambda>(ws, s). length s)")
    (auto simp: find_Some_iff starts_with_def intro: diff_less)

declare strip_all.simps [simp del]

definition trim :: "string \<Rightarrow> string" where
  "trim s = rev (strip_all (map rev whitespace) (rev (strip_all whitespace s)))"

definition trim_end_matches :: "char \<Rightarrow> string \<Rightarrow> string" where
  "trim_end_matches c s = rev (dropWhile (\<lambda>d. d = c) (rev s))"

lemma strip_all_None:
  "find (\<lambda>w. w \<noteq> [] \<and> starts_with w s) ws = None \<Longrightarrow> strip_all ws s = s"
  by (simp add: strip_all.simps)

lemma strip_all_Some:
  "find (\<lambda>w. w \<noteq> [] \<and> starts_with w s) ws = Some w \<Longrightarrow> strip_all ws s = strip_all ws (drop (length w) s)"
  by (subst strip_all.simps) simp

lemma strip_all_stops:
  "\<forall>w \<in> set ws. w \<noteq> [] \<longrightarrow> \<not> starts_with w (strip_all ws s)"
proof (induction ws s rule: strip_all.induct)
  case (1 ws s)
  show ?case
  proof (cases "find (\<lambda>w. w \<noteq> [] \<and> starts_with w s) ws")
    case None
    then show ?thesis by (auto simp: strip_all_None find_None_iff)
  next
    case (Some w)
    with 1 show ?thesis by (simp add: strip_all_Some)
  qed
qed

lemma strip_all_id:
  "\<forall>w \<in> set ws. w \<noteq> [] \<longrightarrow> \<not> starts_with w s \<Longrightarrow> strip_all ws s = s"
  by (rule strip_all_None) (auto simp: find_None_iff)

lemma strip_all_suffix: "\<exists>p. s = p @ strip_all ws s"
proof (induction ws s rule: strip_all.induct)
  case (1 ws s)
  show ?case
  proof (cases "find (\<lambda>w. w \<noteq> [] \<and> starts_with w s) ws")
    case None
    then show ?thesis by (simp add: strip_all_None)
  next
    case (Some w)
    then obtain p where "drop (length w) s = p @ strip_all ws (drop (length w) s)"
      using 1 by blast
    then have "s = (take (length w) s @ p) @ strip_all ws s"
      unfolding strip_all_Some [OF Some] by (metis append_assoc append_take_drop_id)
    then show ?thesis by blast
  qed
qed

text \<open>The trimmed string is a piece of the original that neither starts nor ends with white space.\<close>

lemma trim_ends: "w \<in> set whitespace \<Longrightarrow> \<not> ends_with w (trim s)"
  using strip_all_stops [of "map rev whitespace" "rev (strip_all whitespace s)"] whitespace_nonempty [of w]
  by (auto simp: ends_with_def trim_def)

lemma trim_infix: "\<exists>p q. s = p @ trim s @ q"
proof -
  obtain p where p: "s = p @ strip_all whitespace s" using strip_all_suffix by blast
  obtain q where "rev (strip_all whitespace s) = q @ strip_all (map rev whitespace) (rev (strip_all whitespace s))"
    using strip_all_suffix by blast
  then have "strip_all whitespace s = trim s @ rev q"
    unfolding trim_def by (metis rev_append rev_rev_ident)
  with p show ?thesis by metis
qed

lemma trim_id:
  "(\<And>w. w \<in> set whitespace \<Longrightarrow> \<not> starts_with w s \<and> \<not> ends_with w s) \<Longrightarrow> trim s = s"
  by (auto simp: trim_def ends_with_def strip_all_id)

lemmas trim_eval = trim_def strip_all.simps whitespace_def starts_with_def

text \<open>Hex digits carry no white space.\<close>

lemma whitespace_not_hex: "w \<in> set whitespace \<Longrightarrow> \<not> is_hex_digit (hd w) \<and> \<not> is_hex_digit (last w)"
proof -
  have "list_all (\<lambda>w. \<not> is_hex_digit (hd w) \<and> \<not> is_hex_digit (last w)) whitespace" by code_simp
  then show "w \<in> set whitespace \<Longrightarrow> ?thesis" by (simp add: list_all_iff)
qed

lemma starts_with_hd: "starts_with w s \<Longrightarrow> w \<noteq> [] \<Longrightarrow> s \<noteq> [] \<and> hd s = hd w"
  by (cases w; cases s) (auto simp: starts_with_def)

lemma trim_hex: "\<forall>c \<in> set s. is_hex_digit c \<Longrightarrow> trim s = s"
proof (rule trim_id)
  fix w assume s: "\<forall>c \<in> set s. is_hex_digit c" and w: "w \<in> set whitespace"
  note ne = whitespace_nonempty [OF w] whitespace_not_hex [OF w]
  have "\<not> starts_with w s" using s starts_with_hd [of w s] ne by (metis hd_in_set)
  moreover have "\<not> ends_with w s"
    using s starts_with_hd [of "rev w" "rev s"] ne
    by (metis ends_with_def hd_in_set hd_rev rev_is_Nil_conv set_rev)
  ultimately show "\<not> starts_with w s \<and> \<not> ends_with w s" by blast
qed

subsection \<open>Unsigned decimal numbers\<close>

definition is_decimal :: "char \<Rightarrow> bool" where
  "is_decimal c \<longleftrightarrow> char_in 48 57 c"

definition decimal_value :: "string \<Rightarrow> nat" where
  "decimal_value s = fold (\<lambda>c n. 10 * n + (of_char c - 48)) s 0"

text \<open>\<open>str::parse::<usize>\<close>: an optional plus sign, at least one digit, below \<open>2 ^ 64\<close>.\<close>

definition parse_usize :: "string \<Rightarrow> nat option" where
  "parse_usize s =
     (let digits = (case s of [] \<Rightarrow> [] | c # rest \<Rightarrow> if c = CHR ''+'' then rest else s)
      in if digits \<noteq> [] \<and> list_all is_decimal digits \<and> decimal_value digits < 2 ^ 64
         then Some (decimal_value digits) else None)"

lemmas parse_usize_eval = parse_usize_def decimal_value_def is_decimal_def char_in_def

lemma parse_usize_less: "parse_usize s = Some n \<Longrightarrow> n < 2 ^ 64"
  by (auto simp: parse_usize_def Let_def split: if_splits)

end
