(* ===== verification/Api.thy ===== *)
theory Api
  imports Store Crypto Text
begin

text \<open>
  The HTTP API, \<open>src/api/mod.rs\<close>, \<open>src/api/issuer.rs\<close> and \<open>src/api/holder.rs\<close>: errors and their
  responses, the parsing of client values, the route table, and every handler as a program of
  store requests. A handler starts from what the extractors deliver, the path parameter and the
  decoded JSON body. A result \<open>Inl Panicked\<close> is a panic of the handler itself, which leaves the
  client without a response.
\<close>

subsection \<open>Errors and responses\<close>

datatype api_error =
    BadRequest string
  | NotFound string
  | Conflict string
  | Internal string

datatype json =
    JNull
  | JString string
  | JNumber nat
  | JArray "json list"
  | JObject "(string \<times> json) list"

text \<open>A response without a JSON body is one that the framework makes.\<close>

record response =
  status :: nat
  retry_after :: "string option"
  body :: "json option"

definition json_response :: "nat \<Rightarrow> json \<Rightarrow> response" where
  "json_response code b = \<lparr> status = code, retry_after = None, body = Some b \<rparr>"

definition into_response :: "api_error \<Rightarrow> response" where
  "into_response err =
     (let (code, msg) =
        (case err of
           BadRequest m \<Rightarrow> (400, m)
         | NotFound m \<Rightarrow> (404, m)
         | Conflict m \<Rightarrow> (409, m)
         | Internal m \<Rightarrow> (500, m))
      in json_response code (JObject [(''error'', JString msg)]))"

definition api_error_from_store :: "store_error \<Rightarrow> api_error" where
  "api_error_from_store e =
     (case e of
        StoreFull \<Rightarrow> Conflict ''the tree is full''
      | other \<Rightarrow> Internal (store_error_text other))"

definition api_error_from_crypto :: "crypto_error \<Rightarrow> api_error" where
  "api_error_from_crypto e =
     (case e of
        NotAMember \<Rightarrow> NotFound ''the secret's commitment is not in this tree''
      | ProvingFailed \<Rightarrow> Internal ''proof generation failed'')"

text \<open>A handler's result as a response; \<open>None\<close> for a panic.\<close>

definition respond :: "('a \<Rightarrow> json) \<Rightarrow> api_error failure + 'a \<Rightarrow> response option" where
  "respond to_json r =
     (case r of
        Inr a \<Rightarrow> Some (json_response 200 (to_json a))
      | Inl (Failed e) \<Rightarrow> Some (into_response e)
      | Inl Panicked \<Rightarrow> None)"

subsection \<open>Client values\<close>

definition parse_fr_hex :: "('pk, 'rng, 'z) externs_scheme \<Rightarrow> string \<Rightarrow> api_error + fr" where
  "parse_fr_hex X s =
     try_r (ok_or (BadRequest ''expected hex'') (hex_decode X s)) (\<lambda>bytes.
     if length bytes = 32 then Inr (fr_from_be bytes)
     else Inl (BadRequest ''expected 32 bytes (64 hex chars)''))"

text \<open>\<open>?\<close> on a value, and on a store call with its error converted.\<close>

definition value_or :: "api_error + 'a \<Rightarrow> ('a \<Rightarrow> (api_error failure + 'b) prog) \<Rightarrow> (api_error failure + 'b) prog" where
  "value_or r g = (case r of Inl e \<Rightarrow> Return (Inl (Failed e)) | Inr a \<Rightarrow> g a)"

definition store_call ::
  "(store_error + 'a) prog \<Rightarrow> ('a \<Rightarrow> (api_error failure + 'b) prog) \<Rightarrow> (api_error failure + 'b) prog" where
  "store_call p g = bind_ok (prog_map_err (\<lambda>e. Failed (api_error_from_store e)) p) g"

definition fail :: "api_error \<Rightarrow> (api_error failure + 'a) prog" where
  "fail e = Return (Inl (Failed e))"

subsection \<open>Health and version\<close>

definition health :: "response prog" where
  "health = bind ping (\<lambda>r. Return (case r of
     Inr _ \<Rightarrow> json_response 200 (JObject [(''status'', JString ''ok'')])
   | Inl e \<Rightarrow> json_response 503
       (JObject [(''status'', JString ''error''), (''detail'', JString (store_error_text e))])))"

text \<open>The package name and version are compiled in.\<close>

definition version :: "string \<Rightarrow> string \<Rightarrow> json" where
  "version pkg_name pkg_version =
     JObject [(''name'', JString pkg_name), (''version'', JString pkg_version)]"

subsection \<open>Issuer side\<close>

record add_leaf_request =
  alq_commitment :: string

record add_leaf_response =
  alr_position :: nat
  alr_count :: nat

definition issuer_add_leaf ::
  "('pk, 'rng, 'z) externs_scheme \<Rightarrow> string \<Rightarrow> string \<Rightarrow> (api_error failure + add_leaf_response) prog" where
  "issuer_add_leaf X name req_commitment =
     value_or (parse_fr_hex X req_commitment) (\<lambda>commitment.
     store_call (add_leaf X name commitment) (\<lambda>(pos, count).
     Return (Inr \<lparr> alr_position = pos, alr_count = count \<rparr>)))"

record root_response =
  rr_root :: string

definition em_dash :: string where
  "em_dash = [CHR 0xE2, CHR 0x80, CHR 0x94]"

definition publish ::
  "('pk, 'rng, 'z) externs_scheme \<Rightarrow> string \<Rightarrow> (api_error failure + root_response) prog" where
  "publish X name =
     store_call (stored_leaves X name) (\<lambda>ls.
     if ls = [] then fail (BadRequest (''cannot publish an empty tree '' @ em_dash @ '' add leaves first''))
     else value_or (map_err (\<lambda>_. Conflict ''the tree is full'') (from_leaves ls)) (\<lambda>tree.
     case tree_root tree of None \<Rightarrow> Return (Inl Panicked) | Some root \<Rightarrow>
     store_call (set_published_root X name root) (\<lambda>_.
     Return (Inr \<lparr> rr_root = hex_encode X (fr_be root) \<rparr>))))"

definition get_root ::
  "('pk, 'rng, 'z) externs_scheme \<Rightarrow> string \<Rightarrow> (api_error failure + root_response) prog" where
  "get_root X name =
     store_call (published_root X name) (\<lambda>r. case r of
       Some root \<Rightarrow> Return (Inr \<lparr> rr_root = hex_encode X (fr_be root) \<rparr>)
     | None \<Rightarrow> fail (NotFound ''no root has been published for this issuer''))"

definition list_issuers :: "(api_error failure + string list) prog" where
  "list_issuers = store_call store_list_issuers (\<lambda>issuers. Return (Inr issuers))"

record issuer_info_response =
  ii_name :: string
  ii_leaf_count :: nat
  ii_capacity :: nat
  ii_published_root :: "string option"

definition issuer_info ::
  "('pk, 'rng, 'z) externs_scheme \<Rightarrow> string \<Rightarrow> (api_error failure + issuer_info_response) prog" where
  "issuer_info X name =
     store_call (issuer_exists name) (\<lambda>known.
     if \<not> known then fail (NotFound ''no such issuer'')
     else store_call (leaf_count name) (\<lambda>count.
     store_call (published_root X name) (\<lambda>r.
     Return (Inr \<lparr> ii_name = name, ii_leaf_count = count, ii_capacity = CAPACITY,
       ii_published_root = map_option (\<lambda>f. hex_encode X (fr_be f)) r \<rparr>))))"

subsection \<open>Holder side\<close>

record prove_request =
  req_secret :: string
  req_holder_address :: string

record proof_json =
  pj_a :: string
  pj_b :: string
  pj_c :: string

record prove_response =
  pr_proof :: proof_json
  pr_root :: string
  pr_nullifier :: string

text \<open>\<open>spawn_blocking(..).await\<close>: a panic of the closure comes back as a join error.\<close>

definition blocking_result ::
  "('pk, 'rng, 'z) externs_scheme \<Rightarrow> crypto_error failure + 'a \<Rightarrow> api_error + 'a" where
  "blocking_result X r =
     (case r of
        Inr a \<Rightarrow> Inr a
      | Inl Panicked \<Rightarrow> Inl (Internal (''the proving task failed: '' @ join_error_text X))
      | Inl (Failed e) \<Rightarrow> Inl (api_error_from_crypto e))"

definition prove_reply ::
  "('pk, 'rng, 'z) externs_scheme \<Rightarrow> membership_proof \<Rightarrow> fr \<Rightarrow> prove_response" where
  "prove_reply X membership null =
     \<lparr> pr_proof = \<lparr> pj_a = hex_encode X (enc_a (mp_proof membership)),
                    pj_b = hex_encode X (enc_b (mp_proof membership)),
                    pj_c = hex_encode X (enc_c (mp_proof membership)) \<rparr>,
       pr_root = hex_encode X (mp_root membership),
       pr_nullifier = hex_encode X (fr_be null) \<rparr>"

text \<open>
  \<open>prove\<close> from the comparison with the published root on. \<open>rng\<close> is the operating system's
  generator, which the closure uses.
\<close>

definition prove_published ::
  "('pk, 'rng, 'z) externs_scheme \<Rightarrow> 'pk keys \<Rightarrow> 'rng \<Rightarrow> string \<Rightarrow> string \<Rightarrow> fr \<Rightarrow> merkle_tree \<Rightarrow>
     fr option \<Rightarrow> (api_error failure + prove_response) prog" where
  "prove_published X k rng name holder_address secret tree r =
     (case r of
        None \<Rightarrow> fail (Conflict ''no root has been published for this issuer yet'')
      | Some published \<Rightarrow>
     case tree_root tree of None \<Rightarrow> Return (Inl Panicked) | Some root \<Rightarrow>
     if published \<noteq> root then
       fail (Conflict ''the tree has changed since the last publish; the issuer must publish (and submit) the current root first'')
     else
     bind (spawn_blocking (fst (prove X k tree secret holder_address rng))) (\<lambda>outcome.
     value_or (blocking_result X outcome) (\<lambda>membership.
     let null = nullifier secret in
     bind (record_nullifier X name null) (\<lambda>_.
     Return (Inr (prove_reply X membership null))))))"

definition holder_prove ::
  "('pk, 'rng, 'z) externs_scheme \<Rightarrow> 'pk keys \<Rightarrow> 'rng \<Rightarrow> string \<Rightarrow> prove_request \<Rightarrow>
     (api_error failure + prove_response) prog" where
  "holder_prove X k rng name req =
     value_or (parse_fr_hex X (req_secret req)) (\<lambda>secret.
     store_call (stored_leaves X name) (\<lambda>ls.
     if ls = [] then fail (NotFound ''no such issuer, or empty tree'')
     else value_or (map_err (\<lambda>_. Conflict ''the tree is full'') (from_leaves ls)) (\<lambda>tree.
     store_call (published_root X name)
       (prove_published X k rng name (req_holder_address req) secret tree))))"

subsection \<open>JSON of the responses\<close>

definition add_leaf_json :: "add_leaf_response \<Rightarrow> json" where
  "add_leaf_json r =
     JObject [(''position'', JNumber (alr_position r)), (''count'', JNumber (alr_count r))]"

definition root_json :: "root_response \<Rightarrow> json" where
  "root_json r = JObject [(''root'', JString (rr_root r))]"

definition issuers_json :: "string list \<Rightarrow> json" where
  "issuers_json names = JObject [(''issuers'', JArray (map JString names))]"

definition issuer_info_json :: "issuer_info_response \<Rightarrow> json" where
  "issuer_info_json r =
     JObject [(''name'', JString (ii_name r)), (''leaf_count'', JNumber (ii_leaf_count r)),
       (''capacity'', JNumber (ii_capacity r)),
       (''published_root'', case ii_published_root r of None \<Rightarrow> JNull | Some s \<Rightarrow> JString s)]"

definition prove_json :: "prove_response \<Rightarrow> json" where
  "prove_json r =
     JObject [(''proof'', JObject [(''a'', JString (pj_a (pr_proof r))),
         (''b'', JString (pj_b (pr_proof r))), (''c'', JString (pj_c (pr_proof r)))]),
       (''root'', JString (pr_root r)), (''nullifier'', JString (pr_nullifier r))]"

subsection \<open>Routes\<close>

datatype http_method = Get | Head | Post | Options | OtherMethod string

datatype endpoint =
    Health | Version | ListIssuers
  | IssuerInfo string | AddLeaf string | Publish string | GetRoot string | Prove string

text \<open>
  A path of the table that does not take the method has the route's 405 fallback, which belongs to the
  path's method router and shares its layers. A preflight request is answered before any route.
\<close>

datatype routing = Handler endpoint | MethodNotAllowed endpoint | NoRoute | Preflight

text \<open>A \<open>get\<close> route also answers \<open>HEAD\<close>.\<close>

definition on_get :: "http_method \<Rightarrow> endpoint \<Rightarrow> routing" where
  "on_get m e = (if m = Get \<or> m = Head then Handler e else MethodNotAllowed e)"

definition on_post :: "http_method \<Rightarrow> endpoint \<Rightarrow> routing" where
  "on_post m e = (if m = Post then Handler e else MethodNotAllowed e)"

text \<open>The path is given by its segments; a parameter matches one nonempty segment.\<close>

definition route :: "http_method \<Rightarrow> string list \<Rightarrow> routing" where
  "route m path =
     (case path of
        [a] \<Rightarrow>
          if a = ''health'' then on_get m Health
          else if a = ''version'' then on_get m Version
          else if a = ''issuers'' then on_get m ListIssuers
          else NoRoute
      | [a, name] \<Rightarrow>
          if a = ''issuers'' \<and> name \<noteq> [] then on_get m (IssuerInfo name) else NoRoute
      | [a, name, op] \<Rightarrow>
          if a = ''issuers'' \<and> name \<noteq> []
          then if op = ''leaves'' then on_post m (AddLeaf name)
            else if op = ''publish'' then on_post m (Publish name)
            else if op = ''root'' then on_get m (GetRoot name)
            else if op = ''prove'' then on_post m (Prove name)
            else NoRoute
          else NoRoute
      | _ \<Rightarrow> NoRoute)"

definition ENV_MAX_CONCURRENT_PROOFS :: string where
  "ENV_MAX_CONCURRENT_PROOFS = ''VEILPROOF_MAX_CONCURRENT_PROOFS''"

definition DEFAULT_MAX_CONCURRENT_PROOFS :: nat where
  "DEFAULT_MAX_CONCURRENT_PROOFS = 2"

text \<open>The proof budget that \<open>router\<close> takes from the environment.\<close>

definition prove_capacity :: "(string \<Rightarrow> string option) \<Rightarrow> nat" where
  "prove_capacity env =
     (case Option.bind (env ENV_MAX_CONCURRENT_PROOFS) (\<lambda>v. parse_usize (trim v)) of
        Some n \<Rightarrow> if 0 < n then n else DEFAULT_MAX_CONCURRENT_PROOFS
      | None \<Rightarrow> DEFAULT_MAX_CONCURRENT_PROOFS)"

end
