(* ===== verification/Api_Contract.thy ===== *)
theory Api_Contract
  imports Api
begin

text \<open>
  What the handlers do on any store that keeps the contract \<open>tree_store\<close>: results and effects of
  adding a leaf, publishing, reading the root and proving, including the failures of the store. The
  theory ends with the sequence add, publish, prove.
\<close>

subsection \<open>Client values\<close>

lemma be_val_to_bytes_be_less: "n < 256 ^ w \<Longrightarrow> be_val (to_bytes_be w n) = n"
  by (simp add: be_val_to_bytes_be)

context hex_codec
begin

lemma parse_fr_hex_accepts:
  "(\<exists>f. parse_fr_hex X s = Inr f) \<longleftrightarrow> length s = 64 \<and> (\<forall>c \<in> set s. is_hex_digit c)"
proof (cases "hex_decode X s")
  case None
  then show ?thesis using decode_Some_iff [of s] by (auto simp: parse_fr_hex_def)
next
  case (Some bs)
  with decode_length [OF Some] decode_Some_iff [of s] show ?thesis by (auto simp: parse_fr_hex_def)
qed

lemma parse_fr_hex_error:
  "parse_fr_hex X s = Inl e \<Longrightarrow>
     e = BadRequest ''expected hex'' \<or> e = BadRequest ''expected 32 bytes (64 hex chars)''"
  by (auto simp: parse_fr_hex_def result_iffs split: if_splits)

lemma parse_fr_hex_be: "parse_fr_hex X (hex_encode X (fr_be f)) = Inr f"
  by (simp add: parse_fr_hex_def decode_encode)

text \<open>The value one field order above a canonical one still fits 32 bytes and is reduced.\<close>

lemma be_val_noncanonical:
  "be_val (to_bytes_be 32 (fr_into_bigint f + nat R_MOD)) = fr_into_bigint f + nat R_MOD"
proof (rule be_val_to_bytes_be_less)
  have r: "int (fr_into_bigint f + nat R_MOD) = fr_int f + R_MOD" by simp
  have "2 * R_MOD < 2 ^ 256" by (simp add: R_MOD_def)
  then have "int (fr_into_bigint f + nat R_MOD) < int (256 ^ 32)"
    unfolding r pow_256_32 using fr_int_range(2) [of f] by simp
  then show "fr_into_bigint f + nat R_MOD < 256 ^ 32" by (simp only: of_nat_less_iff)
qed

lemma parse_fr_hex_reduces:
  "parse_fr_hex X (hex_encode X (to_bytes_be 32 (fr_into_bigint f + nat R_MOD))) = Inr f"
proof -
  have "fr_from_be (to_bytes_be 32 (fr_into_bigint f + nat R_MOD)) = fr_of_int (fr_int f + R_MOD)"
    unfolding fr_from_be_def from_be_bytes_mod_order_def be_val_noncanonical by simp
  also have "\<dots> = fr_of_int (fr_int f)" unfolding fr_of_int_eq_iff by simp
  finally show ?thesis by (simp add: parse_fr_hex_def decode_encode)
qed

lemma noncanonical_differs:
  "hex_encode X (to_bytes_be 32 (fr_into_bigint f + nat R_MOD)) \<noteq> hex_encode X (fr_be f)"
proof
  assume "hex_encode X (to_bytes_be 32 (fr_into_bigint f + nat R_MOD)) = hex_encode X (fr_be f)"
  then have "be_val (to_bytes_be 32 (fr_into_bigint f + nat R_MOD)) = be_val (fr_be f)"
    by (simp add: encode_inj)
  then have "int (fr_into_bigint f + nat R_MOD) = int (fr_into_bigint f)"
    unfolding be_val_noncanonical be_val_fr_be by simp
  then show False by simp
qed

end

subsection \<open>The tree of a list of leaves\<close>

definition tree_of :: "fr list \<Rightarrow> merkle_tree" where
  "tree_of ls = \<lparr> constants = round_constants, leaves = ls \<rparr>"

definition root_of :: "fr list \<Rightarrow> fr" where
  "root_of ls = abs_root (tree_of ls)"

lemma tree_of_sel [simp]: "leaves (tree_of ls) = ls" "constants (tree_of ls) = round_constants"
  by (simp_all add: tree_of_def)

lemma from_leaves_tree_of: "length ls \<le> CAPACITY \<Longrightarrow> from_leaves ls = Inr (tree_of ls)"
  by (simp add: from_leaves_def tree_of_def)

lemma tree_root_of [simp]: "tree_root (tree_of ls) = Some (root_of ls)"
  by (simp add: tree_root_abs root_of_def)

subsection \<open>Running handler code\<close>

lemma run_value_or:
  "run_on ex (value_or r g) s = (case r of Inl e \<Rightarrow> (Inl (Failed e), s) | Inr a \<Rightarrow> run_on ex (g a) s)"
  by (cases r) (simp_all add: value_or_def)

lemma run_store_call:
  "run_on ex (store_call p g) s = (case run_on ex p s of
     (Inl e, s') \<Rightarrow> (Inl (Failed (api_error_from_store e)), s')
   | (Inr a, s') \<Rightarrow> run_on ex (g a) s')"
  by (simp add: store_call_def run_bind_ok run_map_err split: prod.splits sum.splits)

lemma run_fail [simp]: "run_on ex (fail e) s = (Inl (Failed e), s)"
  by (simp add: fail_def)

text \<open>A failed database request is an internal error that carries the database's own text.\<close>

definition db_failure :: "api_error failure + 'a \<Rightarrow> bool" where
  "db_failure r \<longleftrightarrow> (case r of
     Inl (Failed (Internal t)) \<Rightarrow> take (length ''database error: '') t = ''database error: ''
   | _ \<Rightarrow> False)"

lemma db_failure_store: "is_db e \<Longrightarrow> db_failure (Inl (Failed (api_error_from_store e)))"
  by (cases e) (simp_all add: db_failure_def api_error_from_store_def)

lemma db_failure_simps [simp]:
  "\<not> db_failure (Inr x)" "\<not> db_failure (Inl Panicked)" "\<not> db_failure (Inl (Failed (Conflict m)))"
  "\<not> db_failure (Inl (Failed (NotFound m)))" "\<not> db_failure (Inl (Failed (BadRequest m)))"
  by (simp_all add: db_failure_def)

subsection \<open>Handlers on the contract\<close>

context tree_store
begin

lemma run_leaves:
  assumes "ok s" and "run_on ex (store_call (stored_leaves X i) g) s = (r, s')"
  obtains s1 where "ok s1" "content s1 = content s" "published s1 = published s" "calm s \<longrightarrow> calm s1"
    "run_on ex (g (content s i)) s1 = (r, s')"
  | "ok s'" "content s' = content s" "published s' = published s" "\<not> calm s" "db_failure r"
proof -
  obtain r1 s1 where 1: "run_on ex (stored_leaves X i) s = (r1, s1)" by (rule prod.exhaust)
  note law = leaves_law [OF assms(1) 1]
  show thesis
  proof (cases r1)
    case (Inl e)
    then show thesis using law assms(2) 1 that(2) by (auto simp: run_store_call db_failure_store)
  next
    case (Inr a)
    then show thesis using law assms(2) 1 that(1) [of s1] by (auto simp: run_store_call)
  qed
qed

lemma run_published:
  assumes "ok s" and "run_on ex (store_call (published_root X i) g) s = (r, s')"
  obtains s1 where "ok s1" "content s1 = content s" "published s1 = published s" "calm s \<longrightarrow> calm s1"
    "run_on ex (g (published s i)) s1 = (r, s')"
  | "ok s'" "content s' = content s" "published s' = published s" "\<not> calm s" "db_failure r"
proof -
  obtain r1 s1 where 1: "run_on ex (published_root X i) s = (r1, s1)" by (rule prod.exhaust)
  note law = published_law [OF assms(1) 1]
  show thesis
  proof (cases r1)
    case (Inl e)
    then show thesis using law assms(2) 1 that(2) by (auto simp: run_store_call db_failure_store)
  next
    case (Inr a)
    then show thesis using law assms(2) 1 that(1) [of s1] by (auto simp: run_store_call)
  qed
qed

lemma issuer_add_leaf_result:
  assumes ok: "ok s" and run: "run_on ex (issuer_add_leaf X i h) s = (r, s')"
  shows "ok s' \<and> published s' = published s \<and> (calm s \<longrightarrow> calm s') \<and>
    (case parse_fr_hex X h of
       Inl e \<Rightarrow> s' = s \<and> r = Inl (Failed e)
     | Inr f \<Rightarrow>
       if CAPACITY \<le> length (content s i)
       then content s' = content s \<and>
         (r = Inl (Failed (Conflict ''the tree is full'')) \<or> db_failure r \<and> \<not> calm s)
       else r = Inr \<lparr> alr_position = length (content s i), alr_count = length (content s i) + 1 \<rparr> \<and>
           content s' = (content s)(i := content s i @ [f]) \<or>
         db_failure r \<and> \<not> calm s \<and>
           (content s' = content s \<or> content s' = (content s)(i := content s i @ [f])))"
proof (cases "parse_fr_hex X h")
  case (Inl e)
  then show ?thesis using ok run by (auto simp: issuer_add_leaf_def run_value_or)
next
  case (Inr f)
  obtain r1 s1 where 1: "run_on ex (add_leaf X i f) s = (r1, s1)" by (rule prod.exhaust)
  note law = add_leaf_law [OF ok 1]
  have s1: "s' = s1" and r: "r = (case r1 of
      Inl e \<Rightarrow> Inl (Failed (api_error_from_store e))
    | Inr (pos, count) \<Rightarrow> Inr \<lparr> alr_position = pos, alr_count = count \<rparr>)"
    using run Inr 1
    by (auto simp: issuer_add_leaf_def run_value_or run_store_call split: sum.splits prod.splits)
  have db: "is_db_error r1 \<Longrightarrow> db_failure r"
    using r by (auto simp: is_db_error_def db_failure_store split: sum.splits)
  show ?thesis
  proof (cases "CAPACITY \<le> length (content s i)")
    case True
    with law Inr s1 r db show ?thesis by (auto simp: api_error_from_store_def)
  next
    case False
    with law Inr s1 r db show ?thesis by auto
  qed
qed

lemma publish_result:
  assumes ok: "ok s" and run: "run_on ex (publish X i) s = (r, s')"
  shows "ok s' \<and> content s' = content s \<and> (calm s \<longrightarrow> calm s') \<and>
    (r = Inr \<lparr> rr_root = hex_encode X (fr_be (root_of (content s i))) \<rparr> \<and> content s i \<noteq> [] \<and>
       published s' = (published s)(i \<mapsto> root_of (content s i)) \<or>
     (\<exists>m. r = Inl (Failed (BadRequest m))) \<and> content s i = [] \<and> published s' = published s \<or>
     db_failure r \<and> \<not> calm s \<and>
       (published s' = published s \<or>
        content s i \<noteq> [] \<and> published s' = (published s)(i \<mapsto> root_of (content s i))))"
  using ok run [unfolded publish_def]
proof (rule run_leaves)
  fix s1 assume 1: "ok s1" "content s1 = content s" "published s1 = published s" "calm s \<longrightarrow> calm s1"
    and run1: "run_on ex (if content s i = []
      then fail (BadRequest (''cannot publish an empty tree '' @ em_dash @ '' add leaves first''))
      else value_or (map_err (\<lambda>_. Conflict ''the tree is full'') (from_leaves (content s i))) (\<lambda>tree.
        case tree_root tree of None \<Rightarrow> Return (Inl Panicked) | Some root \<Rightarrow>
        store_call (set_published_root X i root) (\<lambda>_.
        Return (Inr \<lparr> rr_root = hex_encode X (fr_be root) \<rparr>)))) s1 = (r, s')"
  show ?thesis
  proof (cases "content s i = []")
    case True
    with 1 run1 show ?thesis by auto
  next
    case False
    obtain r2 s2 where 2: "run_on ex (set_published_root X i (root_of (content s i))) s1 = (r2, s2)"
      by (rule prod.exhaust)
    note law = publish_law [OF 1(1) 2]
    have fl: "from_leaves (content s i) = Inr (tree_of (content s i))"
      by (rule from_leaves_tree_of [OF capacity [OF ok]])
    have s2: "s' = s2" and r: "r = (case r2 of Inl e \<Rightarrow> Inl (Failed (api_error_from_store e))
        | Inr _ \<Rightarrow> Inr \<lparr> rr_root = hex_encode X (fr_be (root_of (content s i))) \<rparr>)"
      using run1 False 2 by (auto simp: fl run_value_or run_store_call split: sum.splits)
    have db: "is_db_error r2 \<Longrightarrow> db_failure r"
      using r by (auto simp: is_db_error_def db_failure_store split: sum.splits)
    show ?thesis using law 1 s2 r db False by auto
  qed
qed (auto)

lemma get_root_result:
  assumes ok: "ok s" and run: "run_on ex (get_root X i) s = (r, s')"
  shows "ok s' \<and> content s' = content s \<and> published s' = published s \<and> (calm s \<longrightarrow> calm s') \<and>
    ((case published s i of
        Some f \<Rightarrow> r = Inr \<lparr> rr_root = hex_encode X (fr_be f) \<rparr>
      | None \<Rightarrow> r = Inl (Failed (NotFound ''no root has been published for this issuer''))) \<or>
     db_failure r \<and> \<not> calm s)"
  using ok run [unfolded get_root_def]
  by (rule run_published) (auto split: option.splits)

end

subsection \<open>Proving\<close>

text \<open>
  The answer to a proving request as a function of the issuer's leaves and published root: the
  specification of \<open>holder_prove\<close> without the store.
\<close>

definition prove_spec ::
  "('pk, 'rng, 'z) externs_scheme \<Rightarrow> 'pk keys \<Rightarrow> 'rng \<Rightarrow> fr list \<Rightarrow> fr option \<Rightarrow> prove_request \<Rightarrow>
     api_error + prove_response" where
  "prove_spec X k rng ls pub req =
     try_r (parse_fr_hex X (req_secret req)) (\<lambda>secret.
     if ls = [] then Inl (NotFound ''no such issuer, or empty tree'')
     else case pub of
       None \<Rightarrow> Inl (Conflict ''no root has been published for this issuer yet'')
     | Some root \<Rightarrow>
       if root \<noteq> root_of ls then
         Inl (Conflict ''the tree has changed since the last publish; the issuer must publish (and submit) the current root first'')
       else
         try_r (blocking_result X (fst (prove X k (tree_of ls) secret (req_holder_address req) rng))) (\<lambda>m.
         Inr (prove_reply X m (nullifier secret))))"

text \<open>Every proof the specification returns is against the published root and verifies.\<close>

lemma prove_spec_Inr:
  assumes len: "length ls \<le> CAPACITY" and r: "prove_spec X k rng ls pub req = Inr resp"
  shows "\<exists>secret pf. parse_fr_hex X (req_secret req) = Inr secret \<and>
    leaf_commitment secret \<in> set ls \<and> pub = Some (root_of ls) \<and>
    groth_verify X (vk k) [root_of ls, nullifier secret, address_field X (req_holder_address req)] pf = Inr True \<and>
    resp = prove_reply X \<lparr> mp_proof = encoded_proof_from_arkworks pf, mp_root = fr_be (root_of ls),
      mp_nullifier = fr_be (nullifier secret) \<rparr> (nullifier secret)"
proof -
  obtain secret where secret: "parse_fr_hex X (req_secret req) = Inr secret"
    using r by (auto simp: prove_spec_def result_iffs)
  have pub: "pub = Some (root_of ls)"
    using r by (auto simp: prove_spec_def secret split: if_splits option.splits)
  obtain pr rng' where p: "prove X k (tree_of ls) secret (req_holder_address req) rng = (pr, rng')"
    by (rule prod.exhaust)
  obtain m where m: "pr = Inr m" "resp = prove_reply X m (nullifier secret)"
    using r by (auto simp: prove_spec_def secret pub p result_iffs blocking_result_def
        split: if_splits sum.splits failure.splits)
  have l: "length (leaves (tree_of ls)) \<le> CAPACITY" using len by simp
  have "leaf_commitment secret \<in> set ls"
    using prove_result_cases [OF l p] m(1) by (auto split: if_splits)
  with prove_result_cases [OF l p] m secret pub show ?thesis
    by (auto simp: root_of_def [symmetric])
qed

text \<open>With a complete proof system and the program's own keys every member is served.\<close>

lemma prove_spec_member:
  assumes X: "groth16_complete X" and k: "trusted_setup X rng0 = (k, rng1)"
    and len: "length ls \<le> CAPACITY" and secret: "parse_fr_hex X (req_secret req) = Inr secret"
    and mem: "leaf_commitment secret \<in> set ls" and pub: "pub = Some (root_of ls)"
  shows "\<exists>resp. prove_spec X k rng ls pub req = Inr resp"
proof -
  have "\<exists>m rng'. prove X k (tree_of ls) secret (req_holder_address req) rng = (Inr m, rng')"
    by (rule prove_succeeds [OF X k]) (use len mem in simp_all)
  then obtain m rng' where "prove X k (tree_of ls) secret (req_holder_address req) rng = (Inr m, rng')"
    by blast
  with mem show ?thesis by (auto simp: prove_spec_def secret pub blocking_result_def)
qed

context tree_store
begin

lemma prove_published_result:
  assumes ok: "ok s" and ls: "content s i \<noteq> []"
    and secret: "parse_fr_hex X (req_secret req) = Inr secret"
    and run: "run_on ex (prove_published X k rng i (req_holder_address req) secret (tree_of (content s i))
      (published s i)) s = (r, s')"
  shows "ok s' \<and> content s' = content s \<and> published s' = published s \<and> (calm s \<longrightarrow> calm s') \<and>
    r = map_err Failed (prove_spec X k rng (content s i) (published s i) req)"
proof (cases "published s i = Some (root_of (content s i))")
  case False
  with assms show ?thesis
    by (auto simp: prove_published_def prove_spec_def split: option.splits if_splits)
next
  case True
  let ?m = "blocking_result X (fst (prove X k (tree_of (content s i)) secret (req_holder_address req) rng))"
  obtain rb s2 where 2: "ex Blocking s = (rb, s2)" by (rule prod.exhaust)
  note s2 = blocking_law [OF ok 2]
  have spec: "prove_spec X k rng (content s i) (published s i) req =
      try_r ?m (\<lambda>m. Inr (prove_reply X m (nullifier secret)))"
    using True ls secret by (simp add: prove_spec_def)
  show ?thesis
  proof (cases ?m)
    case (Inl e)
    with run True 2 s2 spec show ?thesis
      by (auto simp: prove_published_def spawn_blocking_def run_value_or run_bind)
  next
    case (Inr m)
    obtain r3 s3 where 3: "run_on ex (record_nullifier X i (nullifier secret)) s2 = (r3, s3)"
      by (rule prod.exhaust)
    have "r = Inr (prove_reply X m (nullifier secret))" "s' = s3"
      using run 2 3 by (simp_all add: prove_published_def spawn_blocking_def True Inr run_value_or run_bind Let_def)
    with record_law [OF conjunct1 [OF s2] 3] s2 spec Inr show ?thesis by simp
  qed
qed

lemma holder_prove_result:
  assumes ok: "ok s" and run: "run_on ex (holder_prove X k rng i req) s = (r, s')"
  shows "ok s' \<and> content s' = content s \<and> published s' = published s \<and> (calm s \<longrightarrow> calm s') \<and>
    (r = map_err Failed (prove_spec X k rng (content s i) (published s i) req) \<or> db_failure r \<and> \<not> calm s)"
proof (cases "parse_fr_hex X (req_secret req)")
  case (Inl e)
  then show ?thesis using ok run by (auto simp: holder_prove_def run_value_or prove_spec_def)
next
  case (Inr secret)
  have fl: "from_leaves (content s i) = Inr (tree_of (content s i))"
    by (rule from_leaves_tree_of [OF capacity [OF ok]])
  from ok run [unfolded holder_prove_def run_value_or Inr sum.case] show ?thesis
  proof (rule run_leaves, goal_cases)
    case (1 s1)
    show ?case
    proof (cases "content s i = []")
      case True
      with 1 Inr show ?thesis by (auto simp: prove_spec_def)
    next
      case False
      with 1(5) have "run_on ex (store_call (published_root X i)
          (prove_published X k rng i (req_holder_address req) secret (tree_of (content s i)))) s1 = (r, s')"
        by (simp add: fl run_value_or)
      with 1(1) show ?thesis
      proof (rule run_published, goal_cases)
        case (1 s2)
        with \<open>content s1 = content s\<close> \<open>published s1 = published s\<close> \<open>calm s \<longrightarrow> calm s1\<close> False Inr
        show ?case using prove_published_result [of s2 i req secret k rng r s'] by simp
      qed (use \<open>content s1 = content s\<close> \<open>published s1 = published s\<close> \<open>calm s \<longrightarrow> calm s1\<close> in auto)
    qed
  qed auto
qed

text \<open>Adding a commitment, publishing and proving in a row.\<close>

lemma add_publish_prove:
  assumes ok: "ok s" and calm: "calm s" and room: "length (content s i) < CAPACITY"
    and hex: "\<And>bs. hex_decode X (hex_encode X bs) = Some bs"
    and X: "groth16_complete X" and k: "trusted_setup X rng0 = (k, rng1)"
    and secret: "parse_fr_hex X (req_secret req) = Inr secret"
    and 1: "run_on ex (issuer_add_leaf X i (hex_encode X (fr_be (leaf_commitment secret)))) s = (r1, s1)"
    and 2: "run_on ex (publish X i) s1 = (r2, s2)"
    and 3: "run_on ex (holder_prove X k rng i req) s2 = (r3, s3)"
  shows "\<exists>resp. r1 = Inr \<lparr> alr_position = length (content s i), alr_count = length (content s i) + 1 \<rparr> \<and>
    r2 = Inr \<lparr> rr_root = pr_root resp \<rparr> \<and> r3 = Inr resp \<and>
    pr_nullifier resp = hex_encode X (fr_be (nullifier secret))"
proof -
  let ?ls = "content s i @ [leaf_commitment secret]"
  have "parse_fr_hex X (hex_encode X (fr_be (leaf_commitment secret))) = Inr (leaf_commitment secret)"
    by (simp add: parse_fr_hex_def hex)
  then have s1: "ok s1" "calm s1" "content s1 i = ?ls"
      "r1 = Inr \<lparr> alr_position = length (content s i), alr_count = length (content s i) + 1 \<rparr>"
    using issuer_add_leaf_result [OF ok 1] room calm by auto
  then have s2: "ok s2" "calm s2" "content s2 i = ?ls" "published s2 i = Some (root_of ?ls)"
      "r2 = Inr \<lparr> rr_root = hex_encode X (fr_be (root_of ?ls)) \<rparr>"
    using publish_result [OF s1(1) 2] by auto
  have len: "length ?ls \<le> CAPACITY" using room by simp
  obtain resp where resp: "prove_spec X k rng ?ls (Some (root_of ?ls)) req = Inr resp"
    using prove_spec_member [OF X k len secret, of "Some (root_of ?ls)" rng] by auto
  have "r3 = Inr resp"
    using holder_prove_result [OF s2(1) 3] s2 resp by simp
  moreover have "pr_root resp = hex_encode X (fr_be (root_of ?ls)) \<and>
      pr_nullifier resp = hex_encode X (fr_be (nullifier secret))"
    using prove_spec_Inr [OF len resp] secret by (auto simp: prove_reply_def)
  ultimately show ?thesis using s1(4) s2(5) by auto
qed

end

end
