(* ===== verification/Registry.thy ===== *)
theory Registry
  imports Api_Contract
begin

text \<open>
  The handlers that read the issuer table, \<open>list_issuers\<close> and \<open>issuer_info\<close> in
  \<open>src/api/issuer.rs\<close>, against an extended contract of the store: besides the content of the trees
  it has the names of the known issuers in the order of the listing.
\<close>

subsection \<open>The extended contract\<close>

locale registry_store = tree_store X ex ok calm content published
  for X :: "('pk, 'rng, 'z) externs_scheme"
    and ex :: "request \<Rightarrow> 's \<Rightarrow> reply \<times> 's"
    and ok calm :: "'s \<Rightarrow> bool"
    and content :: "'s \<Rightarrow> string \<Rightarrow> fr list"
    and published :: "'s \<Rightarrow> string \<Rightarrow> fr option" +
  fixes listed :: "'s \<Rightarrow> string list"
  assumes exists_law:
      "ok s \<Longrightarrow> run_on ex (issuer_exists i) s = (re, s') \<Longrightarrow>
        ok s' \<and> content s' = content s \<and> published s' = published s \<and> listed s' = listed s \<and>
        (re = Inr (i \<in> set (listed s)) \<or> is_db_error re \<and> \<not> calm s) \<and> (calm s \<longrightarrow> calm s')"
    and count_law:
      "ok s \<Longrightarrow> run_on ex (leaf_count i) s = (rc, s') \<Longrightarrow>
        ok s' \<and> content s' = content s \<and> published s' = published s \<and> listed s' = listed s \<and>
        (rc = Inr (length (content s i)) \<or> is_db_error rc \<and> \<not> calm s) \<and> (calm s \<longrightarrow> calm s')"
    and list_law:
      "ok s \<Longrightarrow> run_on ex store_list_issuers s = (rl, s') \<Longrightarrow>
        ok s' \<and> content s' = content s \<and> published s' = published s \<and> listed s' = listed s \<and>
        (rl = Inr (listed s) \<or> is_db_error rl \<and> \<not> calm s) \<and> (calm s \<longrightarrow> calm s')"
begin

lemma list_issuers_result:
  assumes "ok s" and "run_on ex list_issuers s = (r, s')"
  shows "ok s' \<and> content s' = content s \<and> published s' = published s \<and> (calm s \<longrightarrow> calm s') \<and>
    (r = Inr (listed s) \<or> db_failure r \<and> \<not> calm s)"
proof -
  obtain r1 s1 where 1: "run_on ex store_list_issuers s = (r1, s1)" by (rule prod.exhaust)
  show ?thesis
    using list_law [OF assms(1) 1] assms(2) 1
    by (cases r1) (auto simp: list_issuers_def run_store_call db_failure_store)
qed

lemma issuer_info_result:
  assumes ok: "ok s" and run: "run_on ex (issuer_info X i) s = (r, s')"
  shows "ok s' \<and> content s' = content s \<and> published s' = published s \<and> (calm s \<longrightarrow> calm s') \<and>
    (r = (if i \<in> set (listed s)
          then Inr \<lparr> ii_name = i, ii_leaf_count = length (content s i), ii_capacity = CAPACITY,
            ii_published_root = map_option (\<lambda>f. hex_encode X (fr_be f)) (published s i) \<rparr>
          else Inl (Failed (NotFound ''no such issuer''))) \<or>
     db_failure r \<and> \<not> calm s)"
proof -
  obtain r1 s1 where 1: "run_on ex (issuer_exists i) s = (r1, s1)" by (rule prod.exhaust)
  note law1 = exists_law [OF ok 1]
  show ?thesis
  proof (cases "r1 = Inr True")
    case False
    with law1 run 1 show ?thesis
      by (cases r1) (auto simp: issuer_info_def run_store_call db_failure_store)
  next
    case True
    obtain r2 s2 where 2: "run_on ex (leaf_count i) s1 = (r2, s2)" by (rule prod.exhaust)
    have "ok s1" using law1 by blast
    note law2 = count_law [OF this 2]
    show ?thesis
    proof (cases r2)
      case (Inl e)
      with law1 law2 run 1 2 True show ?thesis
        by (auto simp: issuer_info_def run_store_call db_failure_store)
    next
      case (Inr n)
      have "run_on ex (store_call (published_root X i) (\<lambda>r. Return (Inr \<lparr> ii_name = i, ii_leaf_count = n,
          ii_capacity = CAPACITY, ii_published_root = map_option (\<lambda>f. hex_encode X (fr_be f)) r \<rparr>))) s2 = (r, s')"
        using run by (simp add: issuer_info_def run_store_call 1 2 True Inr)
      moreover have "ok s2" using law2 by blast
      ultimately show ?thesis
        using law1 law2 True Inr by (elim run_published [rotated]) auto
    qed
  qed
qed

end

subsection \<open>The store keeps the extended contract\<close>

definition listed_names :: "database \<Rightarrow> string list" where
  "listed_names d = order_by (collation d) (issuer_names d)"

lemma set_listed_names [simp]: "set (listed_names d) = set (issuer_names d)"
  by (simp add: listed_names_def)

lemma distinct_listed_names: "store_ok X d \<Longrightarrow> distinct (listed_names d)"
  by (simp add: listed_names_def store_ok_def issuer_table_ok_def issuer_names_def)

lemma count_distinct: "distinct xs \<Longrightarrow> length (filter (\<lambda>n. n = x) xs) = (if x \<in> set xs then 1 else 0)"
  by (induction xs) auto

lemma published_is_listed: "abs_published X d i = Some f \<Longrightarrow> i \<in> set (listed_names d)"
  by (auto simp: abs_published_def issuer_names_def dest: map_of_SomeD intro: rev_image_eqI
      split: option.splits)

lemma run_issuer_exists:
  assumes "conn_ok X c" "run_on conn_exec (issuer_exists i) c = (r, c')"
  shows "tx c' = None \<and> db c' = db c \<and> (conn_calm c \<longrightarrow> conn_calm c') \<and>
    (r = Inr (i \<in> set (issuer_names (db c))) \<or> is_db_error r \<and> \<not> conn_calm c)"
proof -
  have "length (filter (\<lambda>n. n = i) (issuer_names (db c))) = (if i \<in> set (issuer_names (db c)) then 1 else 0)"
    by (rule count_distinct) (use assms(1) in \<open>simp add: conn_ok_def store_ok_def issuer_table_ok_def issuer_names_def\<close>)
  then show ?thesis
    using assms(1) run_query [OF assms(2) [unfolded issuer_exists_def]]
    by (auto simp: sql_eval_def conn_ok_def scalar_def word_sless_alt split: if_splits)
qed

lemma run_leaf_count:
  assumes "conn_ok X c" "run_on conn_exec (leaf_count i) c = (r, c')"
  shows "tx c' = None \<and> db c' = db c \<and> (conn_calm c \<longrightarrow> conn_calm c') \<and>
    (r = Inr (length (abs_leaves X (db c) i)) \<or> is_db_error r \<and> \<not> conn_calm c)"
proof -
  have "length (rows_of i (leaf_rows (db c))) \<le> CAPACITY"
    using abs_leaves_bound [of X "db c" i] assms(1) by (simp add: conn_ok_def abs_leaves_length)
  then show ?thesis
    using assms(1) run_query [OF assms(2) [unfolded leaf_count_def]]
    by (auto simp: sql_eval_def conn_ok_def scalar_def as_usize_def of_nat_small abs_leaves_length)
qed

lemma run_list_issuers:
  assumes "conn_ok X c" "run_on conn_exec store_list_issuers c = (r, c')"
  shows "tx c' = None \<and> db c' = db c \<and> (conn_calm c \<longrightarrow> conn_calm c') \<and>
    (r = Inr (listed_names (db c)) \<or> is_db_error r \<and> \<not> conn_calm c)"
  using assms(1) run_query [OF assms(2) [unfolded store_list_issuers_def]]
  by (auto simp: sql_eval_def conn_ok_def strings_def listed_names_def)

sublocale hex_codec \<subseteq> reg: registry_store X conn_exec "conn_ok X" conn_calm
  "\<lambda>c. abs_leaves X (db c)" "\<lambda>c. abs_published X (db c)" "\<lambda>c. listed_names (db c)"
proof (unfold_locales, goal_cases)
  case (1 c i r c')
  then show ?case using run_issuer_exists [OF 1] by (auto simp: conn_ok_def)
next
  case (2 c i r c')
  then show ?case using run_leaf_count [OF 2] by (auto simp: conn_ok_def)
next
  case (3 c r c')
  then show ?case using run_list_issuers [OF 3] by (auto simp: conn_ok_def)
qed

end
