(* ===== verification/Store_Concurrency.thy ===== *)
theory Store_Concurrency
  imports Store
begin

text \<open>
  Requests served at the same time. Each session is a program with its own transaction; one
  request of one session is executed at a time, under read-committed isolation: a statement sees
  what is committed when it runs and the rows of its own transaction. An insert waits while another
  open transaction holds a row with the same key. Sessions arrive at any time and may be dropped
  between two requests (the client has gone), which rolls their transaction back. Requests fail
  arbitrarily. The invariant \<open>server_inv\<close> holds in every reachable state.
\<close>

subsection \<open>Sessions and steps\<close>

type_synonym 'a session = "'a prog \<times> tx_state"

type_synonym 'a server = "database \<times> 'a session list"

definition pending_rows :: "tx_state \<Rightarrow> leaf_row list" where
  "pending_rows t = (case t of None \<Rightarrow> [] | Some rows \<Rightarrow> rows)"

definition held_keys :: "'a session list \<Rightarrow> (string \<times> int4) list" where
  "held_keys ss = concat (map (\<lambda>s. map row_key (pending_rows (snd s))) ss)"

definition waits :: "request \<Rightarrow> (string \<times> int4) list \<Rightarrow> bool" where
  "waits rq held =
     (case rq of Tx (TxInsertLeaf i p h) \<Rightarrow> (i, p) \<in> set held | _ \<Rightarrow> False)"

inductive server_step :: "('a prog \<Rightarrow> bool) \<Rightarrow> 'a server \<Rightarrow> 'a server \<Rightarrow> bool" for P where
  arrive: "P p \<Longrightarrow> server_step P (d, ss) (d, ss @ [(p, None)])"
| request:
    "\<not> waits rq (held_keys (ss1 @ ss2)) \<Longrightarrow> exec f rq t d = (r, t', d') \<Longrightarrow>
     server_step P (d, ss1 @ (Call rq k, t) # ss2) (d', ss1 @ (k r, t') # ss2)"
| leave: "server_step P (d, ss1 @ s # ss2) (d, ss1 @ ss2)"

inductive_cases server_stepE: "server_step P (d, ss) (d', ss')"

inductive reachable :: "('a prog \<Rightarrow> bool) \<Rightarrow> 'a server \<Rightarrow> 'a server \<Rightarrow> bool" for P where
  start: "reachable P s s"
| step: "reachable P s t \<Longrightarrow> server_step P t u \<Longrightarrow> reachable P s u"

lemma held_keys_simps [simp]:
  "held_keys [] = []"
  "held_keys (s # ss) = map row_key (pending_rows (snd s)) @ held_keys ss"
  "held_keys (ss1 @ ss2) = held_keys ss1 @ held_keys ss2"
  by (simp_all add: held_keys_def)

lemma pending_rows_simps [simp]: "pending_rows None = []" "pending_rows (Some rows) = rows"
  by (simp_all add: pending_rows_def)

subsection \<open>Disciplined programs\<close>

text \<open>
  What the point a program has reached in its transaction tells: nothing open, opened, the number of
  rows of an issuer counted, a row appended, the row committed.
\<close>

datatype tx_view =
    Idle
  | Open
  | Counted string int8
  | Appended string int4 string
  | Committed string int4 string

fun closed :: "tx_view \<Rightarrow> bool" where
  "closed Idle = True"
| "closed (Committed i p h) = True"
| "closed _ = False"

fun after_commit :: "tx_view \<Rightarrow> tx_view" where
  "after_commit (Appended i p h) = Committed i p h"
| "after_commit _ = Idle"

text \<open>
  A program is disciplined when it stores only encoded field elements, inserts a leaf only at the
  position it counted in the same transaction and below the capacity, holds no transaction while it
  takes another connection or waits for a computation, and ends outside a transaction with a result
  that satisfies \<open>Q\<close>.
\<close>

primrec disciplined ::
  "('pk, 'rng, 'z) externs_scheme \<Rightarrow> (tx_view \<Rightarrow> 'a \<Rightarrow> bool) \<Rightarrow> 'a prog \<Rightarrow> tx_view \<Rightarrow> bool" where
  "disciplined X Q (Return a) = (\<lambda>v. closed v \<and> Q v a)"
| "disciplined X Q (Call rq k) = (\<lambda>v.
     case rq of
       Pool s \<Rightarrow> closed v \<and> sql_ok X s \<and> (\<forall>r. disciplined X Q (k r) v)
     | Begin \<Rightarrow>
         closed v \<and> (\<forall>t. disciplined X Q (k (Error t)) Idle) \<and> (\<forall>res. disciplined X Q (k (Result res)) Open)
     | Tx (TxCountLeaves i) \<Rightarrow>
         v = Open \<and> (\<forall>t. disciplined X Q (k (Error t)) Idle) \<and>
         (\<forall>n. disciplined X Q (k (Result (Number n))) (Counted i n))
     | Tx (TxInsertLeaf i p h) \<Rightarrow>
         (\<exists>n. v = Counted i n \<and> p = as_i32 n \<and> as_usize n < CAPACITY) \<and> stored X h \<and>
         (\<forall>t. disciplined X Q (k (Error t)) Idle) \<and>
         (\<forall>res. disciplined X Q (k (Result res)) (Appended i p h))
     | Commit \<Rightarrow>
         (\<forall>t. disciplined X Q (k (Error t)) Idle) \<and>
         (\<forall>res. disciplined X Q (k (Result res)) (after_commit v))
     | Rollback \<Rightarrow> (\<forall>r. disciplined X Q (k r) Idle)
     | Blocking \<Rightarrow> closed v \<and> (\<forall>r. disciplined X Q (k r) v))"

lemma disciplined_bind:
  "disciplined X (\<lambda>v a. disciplined X Q (g a) v) p v \<Longrightarrow> disciplined X Q (bind p g) v"
proof (induction p arbitrary: v)
  case (Call rq k)
  then show ?case
    by (cases rq) (auto split: tx_sql.splits)
qed simp

lemma disciplined_mono:
  "disciplined X Q p v \<Longrightarrow> (\<And>v a. closed v \<Longrightarrow> Q v a \<Longrightarrow> Q' v a) \<Longrightarrow> disciplined X Q' p v"
proof (induction p arbitrary: v)
  case (Call rq k)
  then show ?case
    by (cases rq) (auto split: tx_sql.splits)
qed simp

text \<open>Programs of which only the discipline matters.\<close>

abbreviation any_result :: "tx_view \<Rightarrow> 'a \<Rightarrow> bool" where
  "any_result \<equiv> \<lambda>v a. True"

lemma disciplined_seq:
  "disciplined X any_result p v \<Longrightarrow> (\<And>a v. closed v \<Longrightarrow> disciplined X Q (g a) v) \<Longrightarrow>
     disciplined X Q (bind p g) v"
  by (rule disciplined_bind) (rule disciplined_mono)

lemma disciplined_seq_ok:
  "disciplined X any_result p v \<Longrightarrow> (\<And>a v. closed v \<Longrightarrow> disciplined X any_result (g a) v) \<Longrightarrow>
     disciplined X any_result (bind_ok p g) v"
  unfolding bind_ok_def by (rule disciplined_seq) (auto split: sum.splits)

lemma disciplined_map_err:
  "disciplined X any_result p v \<Longrightarrow> disciplined X any_result (prog_map_err f p) v"
  unfolding prog_map_err_def by (rule disciplined_seq) simp_all

lemma disciplined_query: "sql_ok X s \<Longrightarrow> closed v \<Longrightarrow> disciplined X any_result (query s f) v"
  by (simp add: query_def split: reply.splits)

lemma disciplined_spawn_blocking: "closed v \<Longrightarrow> disciplined X any_result (spawn_blocking a) v"
  by (simp add: spawn_blocking_def)

lemma sql_ok_simps [simp]:
  "sql_ok X SelectOne" "sql_ok X (InsertIssuer n)" "sql_ok X (CountLeaves n)" "sql_ok X (SelectLeaves n)"
  "sql_ok X SelectIssuers" "sql_ok X (CountIssuers n)" "sql_ok X (SelectRoot n)" "sql_ok X (InsertNullifier n h)"
  "sql_ok X (UpdateRoot n h) = stored X h"
  by (simp_all add: sql_ok_def)

text \<open>Every method of the store is disciplined, and \<open>add_leaf\<close> returns the position it committed.\<close>

definition leaf_added ::
  "('pk, 'rng, 'z) externs_scheme \<Rightarrow> string \<Rightarrow> fr \<Rightarrow> tx_view \<Rightarrow> store_error + nat \<times> nat \<Rightarrow> bool" where
  "leaf_added X i f v r =
     (case r of
        Inl e \<Rightarrow> True
      | Inr (pos, count) \<Rightarrow>
          count = pos + 1 \<and>
          (case v of Committed j p h \<Rightarrow> j = i \<and> h = to_hex X f \<and> pos = i32_as_usize p | _ \<Rightarrow> False))"

lemma count_position: "as_usize n < CAPACITY \<Longrightarrow> i32_as_usize (as_i32 n) = as_usize n"
  using count_as_i32 [of "as_usize n"] position_as_usize [of "as_usize n"] by (simp add: as_usize_def)

context hex_codec
begin

lemma disciplined_append_in_tx:
  "closed v \<Longrightarrow> disciplined X (leaf_added X i f) (append_in_tx X i f) v"
  by (simp add: append_in_tx_def abort_def scalar_def Let_def stored_to_hex leaf_added_def
      count_position split: reply.splits)

lemma disciplined_add_leaf: "closed v \<Longrightarrow> disciplined X (leaf_added X i f) (add_leaf X i f) v"
  unfolding add_leaf_def bind_ok_def ensure_issuer_def
  by (rule disciplined_seq)
    (auto simp: disciplined_query disciplined_append_in_tx leaf_added_def split: sum.splits)

lemma disciplined_add_leaf_any: "closed v \<Longrightarrow> disciplined X any_result (add_leaf X i f) v"
  by (rule disciplined_mono [OF disciplined_add_leaf]) simp_all

lemma disciplined_store:
  assumes "closed v"
  shows "disciplined X any_result ping v" "disciplined X any_result (add_leaf X i f) v"
    "disciplined X any_result (stored_leaves X i) v"
    "disciplined X any_result (set_published_root X i f) v"
    "disciplined X any_result store_list_issuers v"
    "disciplined X any_result (issuer_exists i) v" "disciplined X any_result (leaf_count i) v"
    "disciplined X any_result (published_root X i) v" "disciplined X any_result (record_nullifier X i f) v"
  using assms
  by (simp_all add: disciplined_add_leaf_any ping_def ensure_issuer_def stored_leaves_def set_published_root_def
      store_list_issuers_def issuer_exists_def leaf_count_def published_root_def record_nullifier_def
      disciplined_query disciplined_seq_ok stored_to_hex)

end

subsection \<open>The invariant\<close>

definition next_row :: "('pk, 'rng, 'z) externs_scheme \<Rightarrow> database \<Rightarrow> leaf_row \<Rightarrow> bool" where
  "next_row X d r \<longleftrightarrow>
     row_issuer r \<in> set (issuer_names d) \<and> stored X (row_commitment r) \<and>
     row_position r = of_nat (length (rows_of (row_issuer r) (leaf_rows d))) \<and>
     length (rows_of (row_issuer r) (leaf_rows d)) < CAPACITY"

fun view_ok :: "('pk, 'rng, 'z) externs_scheme \<Rightarrow> database \<Rightarrow> tx_state \<Rightarrow> tx_view \<Rightarrow> bool" where
  "view_ok X d t Idle = (t = None)"
| "view_ok X d t Open = (t = Some [])"
| "view_ok X d t (Counted i n) = (t = Some [] \<and> as_usize n \<le> length (rows_of i (leaf_rows d)))"
| "view_ok X d t (Appended i p h) =
     (let r = \<lparr> row_issuer = i, row_position = p, row_commitment = h \<rparr> in t = Some [r] \<and> next_row X d r)"
| "view_ok X d t (Committed i p h) =
     (t = None \<and> \<lparr> row_issuer = i, row_position = p, row_commitment = h \<rparr> \<in> set (leaf_rows d))"

definition session_ok ::
  "('pk, 'rng, 'z) externs_scheme \<Rightarrow> (tx_view \<Rightarrow> 'a \<Rightarrow> bool) \<Rightarrow> database \<Rightarrow> 'a session \<Rightarrow> bool" where
  "session_ok X Q d s \<longleftrightarrow> (\<exists>v. disciplined X Q (fst s) v \<and> view_ok X d (snd s) v)"

definition server_inv ::
  "('pk, 'rng, 'z) externs_scheme \<Rightarrow> (tx_view \<Rightarrow> 'a \<Rightarrow> bool) \<Rightarrow> 'a server \<Rightarrow> bool" where
  "server_inv X Q s \<longleftrightarrow>
     store_ok X (fst s) \<and> distinct (held_keys (snd s)) \<and> (\<forall>c \<in> set (snd s). session_ok X Q (fst s) c)"

text \<open>Other sessions' views survive a statement on the pool and a commit of a row they do not hold.\<close>

lemma view_ok_sql:
  assumes "view_ok X d t v" "leaf_rows d' = leaf_rows d" "set (issuer_names d) \<subseteq> set (issuer_names d')"
  shows "view_ok X d' t v"
  using assms by (cases v) (auto simp: next_row_def)

lemma view_ok_append:
  assumes "view_ok X d t v" "next_row X d r" "row_key r \<notin> set (map row_key (pending_rows t))"
  shows "view_ok X (append_row r d) t v"
proof (cases v)
  case (Appended i p h)
  let ?r = "\<lparr> row_issuer = i, row_position = p, row_commitment = h \<rparr>"
  have r': "t = Some [?r]" "next_row X d ?r" using assms(1) Appended by (simp_all add: Let_def)
  then have "row_issuer r \<noteq> i"
    using assms(2,3) by (auto simp: next_row_def row_key_def)
  with r' Appended show ?thesis
    by (auto simp: next_row_def append_row_def rows_of_single Let_def)
qed (use assms in \<open>auto simp: append_row_def rows_of_single\<close>)

lemma session_ok_sql:
  "session_ok X Q d s \<Longrightarrow> leaf_rows d' = leaf_rows d \<Longrightarrow> set (issuer_names d) \<subseteq> set (issuer_names d') \<Longrightarrow>
     session_ok X Q d' s"
  unfolding session_ok_def using view_ok_sql by blast

lemma session_ok_append:
  "session_ok X Q d s \<Longrightarrow> next_row X d r \<Longrightarrow> row_key r \<notin> set (map row_key (pending_rows (snd s))) \<Longrightarrow>
     session_ok X Q (append_row r d) s"
  unfolding session_ok_def using view_ok_append by blast

lemma store_ok_next_row: "store_ok X d \<Longrightarrow> next_row X d r \<Longrightarrow> store_ok X (append_row r d)"
  using leaf_table_append [of X "issuer_names d" "leaf_rows d" r]
  by (simp add: store_ok_def append_row_def next_row_def)

text \<open>
  The effect of one request of a disciplined session, seen from outside: the database is unchanged
  and at most a row is held for which no other session waits, or a statement was executed on the
  pool, or the row it held was committed.
\<close>

definition request_effect ::
  "request \<Rightarrow> tx_state \<Rightarrow> tx_state \<Rightarrow> database \<Rightarrow> database \<Rightarrow> ('pk, 'rng, 'z) externs_scheme \<Rightarrow> bool" where
  "request_effect rq t t' d d' X \<longleftrightarrow>
     d' = d \<and> (pending_rows t' = [] \<or> pending_rows t' = pending_rows t \<or>
       (\<exists>i p h. rq = Tx (TxInsertLeaf i p h) \<and> map row_key (pending_rows t') = [(i, p)])) \<or>
     (\<exists>s res. rq = Pool s \<and> sql_ok X s \<and> sql_eval s d = Some (res, d') \<and> t' = t) \<or>
     (\<exists>r. t = Some [r] \<and> next_row X d r \<and> d' = append_row r d \<and> t' = None)"

lemma answer_cases: "answer f r = r \<and> f = Fine \<or> (\<exists>t. answer f r = Error t) \<and> f \<noteq> Fine"
  by (cases f) simp_all

lemma insert_next_row:
  assumes st: "store_ok X d" and n: "as_usize n \<le> length (rows_of i (leaf_rows d))" "as_usize n < CAPACITY"
    and h: "stored X h" and ev: "tx_eval (TxInsertLeaf i (as_i32 n) h) [] d = Some (res, rows)"
  shows "let r = \<lparr> row_issuer = i, row_position = as_i32 n, row_commitment = h \<rparr> in
    rows = [r] \<and> next_row X d r"
proof -
  let ?r = "\<lparr> row_issuer = i, row_position = as_i32 n, row_commitment = h \<rparr>"
  have r: "rows = [?r]" "i \<in> set (issuer_names d)" "row_key ?r \<notin> set (map row_key (leaf_rows d))"
    using ev by (auto simp: tx_eval_def Let_def split: if_splits)
  have pos: "as_i32 n = of_nat (as_usize n)"
    using n(2) count_as_i32 [of "as_usize n"] by (simp add: as_usize_def)
  have "leaf_table_ok X (issuer_names d) (leaf_rows d)" using st by (simp add: store_ok_def)
  from leaf_key_free [OF this r(3) _ _ n(1)] have "as_usize n = length (rows_of i (leaf_rows d))"
    by (simp add: pos)
  with r n h show ?thesis by (simp add: next_row_def pos)
qed

lemma request_ok:
  assumes st: "store_ok X d" and dis: "disciplined X Q (Call rq k) v" and view: "view_ok X d t v"
    and ex: "exec f rq t d = (r, t', d')"
  shows "session_ok X Q d' (k r, t') \<and> request_effect rq t t' d d' X"
proof (cases rq)
  case (Pool s)
  have k: "\<And>r. disciplined X Q (k r) v" and s: "sql_ok X s" using dis by (simp_all add: Pool)
  show ?thesis
  proof (cases "sql_eval s d")
    case None
    with ex k view Pool show ?thesis
      by (auto simp: exec_def session_ok_def request_effect_def)
  next
    case (Some p)
    then obtain res d1 where ev: "sql_eval s d = Some (res, d1)" by (cases p) auto
    have "view_ok X d1 t v" using view sql_eval_monotone [OF ev] by (auto intro: view_ok_sql)
    with ex k view Pool ev s show ?thesis
      by (cases "acts f") (auto simp: exec_def session_ok_def request_effect_def)
  qed
next
  case Begin
  with ex dis answer_cases [of f "Result Done"] show ?thesis
    by (auto simp: exec_def session_ok_def request_effect_def intro: exI [of _ Open] exI [of _ Idle])
next
  case (Tx s)
  show ?thesis
  proof (cases s)
    case (TxCountLeaves i)
    with dis Tx have k: "v = Open" "\<And>t. disciplined X Q (k (Error t)) Idle"
        "\<And>n. disciplined X Q (k (Result (Number n))) (Counted i n)" by simp_all
    let ?n = "of_nat (length (rows_of i (leaf_rows d))) :: int8"
    have "length (rows_of i (leaf_rows d)) \<le> CAPACITY"
      using rows_of_ok [of X "issuer_names d" "leaf_rows d" i] st
      by (simp add: store_ok_def issuer_leaves_ok_def)
    then have "as_usize ?n \<le> length (rows_of i (leaf_rows d))" by (simp add: as_usize_def of_nat_small)
    moreover have "tx_eval s [] d = Some (Number ?n, [])"
      by (simp add: TxCountLeaves tx_eval_def rows_of_def)
    ultimately show ?thesis
      using ex k view Tx answer_cases [of f "Result (Number ?n)"]
      by (auto simp: exec_def session_ok_def request_effect_def intro: exI [of _ "Counted i ?n"] exI [of _ Idle])
  next
    case (TxInsertLeaf i p h)
    with dis Tx obtain n where k: "v = Counted i n" "p = as_i32 n" "as_usize n < CAPACITY" "stored X h"
        "\<And>t. disciplined X Q (k (Error t)) Idle" "\<And>res. disciplined X Q (k (Result res)) (Appended i p h)"
      by auto
    have t: "t = Some []" "as_usize n \<le> length (rows_of i (leaf_rows d))" using view k(1) by simp_all
    show ?thesis
    proof (cases "f = Fine \<and> tx_eval s [] d \<noteq> None")
      case True
      then obtain res rows where ev: "tx_eval s [] d = Some (res, rows)" by auto
      let ?row = "\<lparr> row_issuer = i, row_position = p, row_commitment = h \<rparr>"
      have row: "rows = [?row]" "next_row X d ?row"
        using insert_next_row [OF st t(2) k(3,4) ev [unfolded TxInsertLeaf k(2)]] k(2)
        by (simp_all add: Let_def)
      have "r = Result res" "t' = Some [?row]" "d' = d"
        using ex True ev row(1) by (simp_all add: exec_def Tx t(1))
      with row k(6) show ?thesis
        by (auto simp: session_ok_def request_effect_def Tx TxInsertLeaf row_key_def
            intro: exI [of _ "Appended i p h"])
    next
      case False
      then have "(\<exists>e. r = Error e) \<and> t' = None \<and> d' = d"
        using ex answer_cases [of f] by (cases f) (auto simp: exec_def Tx t(1) split: option.splits)
      with k(5) show ?thesis
        by (auto simp: session_ok_def request_effect_def intro: exI [of _ Idle])
    qed
  qed
next
  case Commit
  have k: "\<And>t. disciplined X Q (k (Error t)) Idle" "\<And>res. disciplined X Q (k (Result res)) (after_commit v)"
    using dis by (simp_all add: Commit)
  show ?thesis
  proof (cases "\<exists>i p h. v = Appended i p h")
    case True
    then obtain i p h where v: "v = Appended i p h" by blast
    let ?row = "\<lparr> row_issuer = i, row_position = p, row_commitment = h \<rparr>"
    have t: "t = Some [?row]" "next_row X d ?row" using view v by (simp_all add: Let_def)
    have "view_ok X (append_row ?row d) None (after_commit v)" by (simp add: v append_row_def)
    with ex k t answer_cases [of f "Result Done"] show ?thesis
      by (cases "acts f")
        (auto simp: exec_def Commit append_row_def session_ok_def request_effect_def
          intro: exI [of _ Idle] exI [of _ "after_commit v"])
  next
    case False
    then have "after_commit v = Idle" by (cases v) simp_all
    moreover have "d' = d" "t' = None" using ex view False by (cases v; auto simp: exec_def Commit)+
    ultimately show ?thesis
      using ex k by (cases r) (auto simp: session_ok_def request_effect_def intro: exI [of _ Idle])
  qed
next
  case Rollback
  with ex dis show ?thesis
    by (auto simp: exec_def session_ok_def request_effect_def intro: exI [of _ Idle])
next
  case Blocking
  with ex dis view show ?thesis by (auto simp: exec_def session_ok_def request_effect_def)
qed

lemma server_inv_step:
  assumes inv: "server_inv X Q s" and P: "\<And>p. P p \<Longrightarrow> disciplined X Q p Idle" and st: "server_step P s s'"
  shows "server_inv X Q s'"
  using st
proof cases
  case (arrive p d ss)
  then show ?thesis
    using inv P [of p] by (auto simp: server_inv_def session_ok_def intro: exI [of _ Idle])
next
  case (leave d ss1 c ss2)
  then show ?thesis using inv by (auto simp: server_inv_def)
next
  case (request rq ss1 ss2 f t d r t' d' k)
  have d: "store_ok X d" and keys: "distinct (held_keys ss1 @ map row_key (pending_rows t) @ held_keys ss2)"
    and oth: "\<forall>c \<in> set ss1 \<union> set ss2. session_ok X Q d c" and own: "session_ok X Q d (Call rq k, t)"
    using inv request(1) by (auto simp: server_inv_def)
  obtain v where v: "disciplined X Q (Call rq k) v" "view_ok X d t v" using own by (auto simp: session_ok_def)
  note eff = request_ok [OF d v request(4)]
  then have new: "session_ok X Q d' (k r, t')" by blast
  from eff have "request_effect rq t t' d d' X" by blast
  then consider
      "d' = d" "pending_rows t' = [] \<or> pending_rows t' = pending_rows t \<or>
        (\<exists>i p h. rq = Tx (TxInsertLeaf i p h) \<and> map row_key (pending_rows t') = [(i, p)])"
    | sql res where "sql_ok X sql" "sql_eval sql d = Some (res, d')" "t' = t"
    | row where "t = Some [row]" "next_row X d row" "d' = append_row row d" "t' = None"
    unfolding request_effect_def by blast
  then show ?thesis
  proof cases
    case 1
    have "distinct (held_keys ss1 @ map row_key (pending_rows t') @ held_keys ss2)"
      using 1(2)
    proof (elim disjE exE conjE)
      fix i p h assume "rq = Tx (TxInsertLeaf i p h)" "map row_key (pending_rows t') = [(i, p)]"
      with request(3) keys show ?thesis by (auto simp: waits_def)
    qed (use keys in auto)
    with 1(1) d oth new request(2) show ?thesis by (auto simp: server_inv_def)
  next
    case 2
    have "store_ok X d'" using sql_eval_store_ok [OF 2(2,1) d] .
    moreover have "\<forall>c \<in> set ss1 \<union> set ss2. session_ok X Q d' c"
      using oth sql_eval_monotone [OF 2(2)] session_ok_sql by blast
    ultimately show ?thesis using 2(3) keys new request(2) by (auto simp: server_inv_def)
  next
    case 3
    have "session_ok X Q d' c" if c: "c \<in> set ss1 \<union> set ss2" for c
    proof -
      have "set (map row_key (pending_rows (snd c))) \<subseteq> set (held_keys ss1) \<union> set (held_keys ss2)"
        using c by (auto simp: held_keys_def)
      then have "row_key row \<notin> set (map row_key (pending_rows (snd c)))"
        using keys 3(1) by auto
      with oth c 3(2,3) show ?thesis using session_ok_append by blast
    qed
    moreover have "store_ok X d'" using store_ok_next_row [OF d 3(2)] 3(3) by simp
    ultimately show ?thesis using 3(4) keys new request(2) by (auto simp: server_inv_def)
  qed
qed

lemma server_inv_reachable:
  assumes "reachable P s s'" and "server_inv X Q s" and "\<And>p. P p \<Longrightarrow> disciplined X Q p Idle"
  shows "server_inv X Q s'"
  using assms(1,2)
proof induction
  case (step s t u)
  show ?case by (rule server_inv_step [OF step(3) [OF step(4)] assms(3) step(2)])
qed

lemma server_inv_init: "store_ok X d \<Longrightarrow> server_inv X Q (d, [])"
  by (simp add: server_inv_def)

subsection \<open>Leaves are only appended\<close>

lemma abs_leaves_append_row:
  "\<exists>new. abs_leaves X (append_row r d) i = abs_leaves X d i @ new"
  by (simp add: abs_leaves_def append_row_def)

lemma server_step_appends:
  assumes inv: "server_inv X Q s" and st: "server_step P s s'"
  shows "\<exists>new. abs_leaves X (fst s') i = abs_leaves X (fst s) i @ new"
  using st
proof cases
  case (request rq ss1 ss2 f t d r t' d' k)
  have "session_ok X Q d (Call rq k, t)" "store_ok X d" using inv request(1) by (simp_all add: server_inv_def)
  then have "request_effect rq t t' d d' X"
    using request_ok [OF _ _ _ request(4)] by (auto simp: session_ok_def)
  then consider "d' = d" | sql res where "sql_eval sql d = Some (res, d')" | row where "d' = append_row row d"
    unfolding request_effect_def by blast
  then have "\<exists>new. abs_leaves X d' i = abs_leaves X d i @ new"
    by cases (simp_all add: sql_eval_abs_leaves abs_leaves_append_row)
  with request(1,2) show ?thesis by simp
qed simp_all

lemma reachable_appends:
  assumes "reachable P s s'" and "server_inv X Q s" and P: "\<And>p. P p \<Longrightarrow> disciplined X Q p Idle"
  shows "\<exists>new. abs_leaves X (fst s') i = abs_leaves X (fst s) i @ new"
  using assms(1,2)
proof induction
  case (step s t u)
  have "server_inv X Q t" by (rule server_inv_reachable [OF step(1,4) P])
  from server_step_appends [OF this step(2)] step(3) [OF step(4)] show ?case by (metis append_assoc)
qed simp

subsection \<open>Committed rows\<close>

lemma committed_row_position:
  assumes st: "store_ok X d" and r: "r \<in> set (leaf_rows d)"
  shows "i32_as_usize (row_position r) < length (abs_leaves X d (row_issuer r)) \<and>
    abs_leaves X d (row_issuer r) ! i32_as_usize (row_position r) = stored_fr X (row_commitment r)"
proof -
  let ?rows = "rows_of (row_issuer r) (leaf_rows d)"
  have ok: "issuer_leaves_ok ?rows" using st rows_of_ok by (auto simp: store_ok_def)
  have "r \<in> set ?rows" using r by (simp add: set_rows_of)
  then obtain k where k: "k < length ?rows" "?rows ! k = r" by (auto simp: in_set_conv_nth)
  have "k \<le> CAPACITY" using ok k(1) by (simp add: issuer_leaves_ok_def)
  then have "i32_as_usize (row_position r) = k"
    using issuer_leaves_nth [OF ok k(1)] k(2) by (simp add: position_as_usize)
  with k show ?thesis by (simp add: abs_leaves_def)
qed

subsection \<open>Holders do not wait\<close>

text \<open>
  A session that waits for a key waits for one that holds it and whose next request waits for none.
\<close>

lemma holder_runs:
  assumes c: "session_ok X Q d c" and key: "key \<in> set (map row_key (pending_rows (snd c)))"
  shows "\<exists>rq k. fst c = Call rq k \<and> (\<forall>held. \<not> waits rq held)"
proof -
  obtain v where v: "disciplined X Q (fst c) v" "view_ok X d (snd c) v" using c by (auto simp: session_ok_def)
  obtain i p h where a: "v = Appended i p h" using v(2) key by (cases v) (auto simp: Let_def)
  show ?thesis
  proof (cases "fst c")
    case (Return x)
    with v(1) a show ?thesis by simp
  next
    case (Call rq k)
    with v(1) a have "\<not> waits rq held" for held
      by (cases rq) (auto simp: waits_def split: tx_sql.splits)
    with Call show ?thesis by blast
  qed
qed

end
