(* ===== verification/Server.thy ===== *)
theory Server
  imports Registry Store_Concurrency
begin

text \<open>
  Every handler as one session program that ends with the response: dispatch, the discipline of
  every handler (so that any number of them can run at the same time over one database), its answers
  under arbitrary failures, and the two halves of a publication.
\<close>

subsection \<open>The handlers on the store\<close>

context hex_codec
begin

lemmas store_publish_result = pg.publish_result
lemmas store_get_root_result = pg.get_root_result
lemmas store_prove_result = pg.holder_prove_result
lemmas store_add_leaf_result = pg.issuer_add_leaf_result
lemmas store_add_publish_prove = pg.add_publish_prove
lemmas store_issuer_info_result = reg.issuer_info_result
lemmas store_list_issuers_result = reg.list_issuers_result

end

subsection \<open>Dispatch\<close>

text \<open>
  A request after routing and extraction: the path parameter, the decoded body, for \<open>prove\<close> the
  randomness it will draw.
\<close>

datatype 'rng call =
    CallHealth
  | CallVersion
  | CallListIssuers
  | CallIssuerInfo string
  | CallAddLeaf string string
  | CallPublish string
  | CallGetRoot string
  | CallProve string prove_request 'rng

text \<open>The name of the issuer is a text that the database takes.\<close>

definition acceptable_call :: "'rng call \<Rightarrow> bool" where
  "acceptable_call c =
     (case c of
        CallIssuerInfo name \<Rightarrow> acceptable_text name
      | CallAddLeaf name h \<Rightarrow> acceptable_text name
      | CallPublish name \<Rightarrow> acceptable_text name
      | CallGetRoot name \<Rightarrow> acceptable_text name
      | CallProve name req rng \<Rightarrow> acceptable_text name
      | _ \<Rightarrow> True)"

definition PKG_NAME :: string where
  "PKG_NAME = ''veilproof-server''"

definition PKG_VERSION :: string where
  "PKG_VERSION = ''0.1.0''"

definition finish :: "('a \<Rightarrow> json) \<Rightarrow> (api_error failure + 'a) prog \<Rightarrow> response option prog" where
  "finish to_json p = bind p (\<lambda>r. Return (respond to_json r))"

definition handle ::
  "('pk, 'rng, 'z) externs_scheme \<Rightarrow> 'pk keys \<Rightarrow> 'rng call \<Rightarrow> response option prog" where
  "handle X k c =
     (case c of
        CallHealth \<Rightarrow> bind health (\<lambda>r. Return (Some r))
      | CallVersion \<Rightarrow> Return (Some (json_response 200 (version PKG_NAME PKG_VERSION)))
      | CallListIssuers \<Rightarrow> finish issuers_json list_issuers
      | CallIssuerInfo name \<Rightarrow> finish issuer_info_json (issuer_info X name)
      | CallAddLeaf name commitment \<Rightarrow> finish add_leaf_json (issuer_add_leaf X name commitment)
      | CallPublish name \<Rightarrow> finish root_json (publish X name)
      | CallGetRoot name \<Rightarrow> finish root_json (get_root X name)
      | CallProve name req rng \<Rightarrow> finish prove_json (holder_prove X k rng name req))"

subsection \<open>Every handler is disciplined\<close>

lemma disciplined_fail: "closed v \<Longrightarrow> disciplined X any_result (fail e) v"
  by (simp add: fail_def)

lemma disciplined_value_or:
  "closed v \<Longrightarrow> (\<And>a. disciplined X any_result (g a) v) \<Longrightarrow> disciplined X any_result (value_or r g) v"
  by (simp add: value_or_def split: sum.splits)

lemma disciplined_store_call:
  "disciplined X any_result p v \<Longrightarrow> (\<And>a v. closed v \<Longrightarrow> disciplined X any_result (g a) v) \<Longrightarrow>
     disciplined X any_result (store_call p g) v"
  unfolding store_call_def by (intro disciplined_seq_ok disciplined_map_err)

lemma disciplined_finish:
  "disciplined X any_result p v \<Longrightarrow> disciplined X any_result (finish to_json p) v"
  unfolding finish_def by (rule disciplined_seq) simp_all

context hex_codec
begin

lemmas disciplined_intros = disciplined_store disciplined_fail disciplined_value_or disciplined_store_call
  disciplined_finish

lemma disciplined_publish: "closed v \<Longrightarrow> disciplined X any_result (publish X i) v"
  unfolding publish_def
  by (intro disciplined_intros) (auto intro!: disciplined_intros split: option.splits)

lemma disciplined_prove_published:
  "closed v \<Longrightarrow> disciplined X any_result (prove_published X k rng i h secret tree r) v"
  unfolding prove_published_def
  by (auto intro!: disciplined_intros disciplined_seq [OF disciplined_spawn_blocking]
      disciplined_seq [OF disciplined_store(9)] split: option.splits simp: Let_def)

lemma disciplined_holder_prove: "closed v \<Longrightarrow> disciplined X any_result (holder_prove X k rng i req) v"
  unfolding holder_prove_def
  by (intro disciplined_intros) (auto intro!: disciplined_intros disciplined_prove_published)

lemma disciplined_issuer_info: "closed v \<Longrightarrow> disciplined X any_result (issuer_info X i) v"
  unfolding issuer_info_def
  by (intro disciplined_intros) (auto intro!: disciplined_intros)

lemma disciplined_handle: "disciplined X any_result (handle X k c) Idle"
proof (cases c)
  case CallHealth
  then show ?thesis
    by (auto simp: handle_def health_def intro!: disciplined_seq disciplined_store split: sum.splits)
next
  case CallVersion
  then show ?thesis by (simp add: handle_def)
next
  case CallListIssuers
  then show ?thesis
    by (auto simp: handle_def list_issuers_def intro!: disciplined_intros)
next
  case (CallIssuerInfo i)
  then show ?thesis by (auto simp: handle_def intro!: disciplined_finish disciplined_issuer_info)
next
  case (CallAddLeaf i h)
  then show ?thesis
    by (auto simp: handle_def issuer_add_leaf_def intro!: disciplined_intros)
next
  case (CallPublish i)
  then show ?thesis by (auto simp: handle_def intro!: disciplined_finish disciplined_publish)
next
  case (CallGetRoot i)
  then show ?thesis
    by (auto simp: handle_def get_root_def intro!: disciplined_intros split: option.splits)
next
  case (CallProve i req rng)
  then show ?thesis by (auto simp: handle_def intro!: disciplined_finish disciplined_holder_prove)
qed

end

subsection \<open>Every request is answered\<close>

text \<open>
  The texts an internal error can carry: the database's own, or, when proving, one of the two fixed
  messages.
\<close>

definition internal_text :: "('pk, 'rng, 'z) externs_scheme \<Rightarrow> bool \<Rightarrow> string \<Rightarrow> bool" where
  "internal_text X proving t \<longleftrightarrow>
     (\<exists>u. t = ''database error: '' @ u) \<or>
     proving \<and> (t = ''proof generation failed'' \<or> t = ''the proving task failed: '' @ join_error_text X)"

text \<open>
  A handler's result that becomes a response: not a panic, and an internal error, with one of its
  texts, only where the database may fail or a proof may (\<open>quiet\<close> is false).
\<close>

fun answers :: "('pk, 'rng, 'z) externs_scheme \<Rightarrow> bool \<Rightarrow> bool \<Rightarrow> api_error failure + 'a \<Rightarrow> bool" where
  "answers X proving quiet (Inl Panicked) = False"
| "answers X proving quiet (Inl (Failed (Internal t))) = (\<not> quiet \<and> internal_text X proving t)"
| "answers X proving quiet _ = True"

lemma respond_answers:
  assumes "answers X proving quiet r"
  shows "\<exists>resp. respond to_json r = Some resp \<and> (status resp \<in> {200, 400, 404, 409} \<or>
    \<not> quiet \<and> status resp = 500 \<and>
      (\<exists>t. body resp = Some (JObject [(''error'', JString t)]) \<and> internal_text X proving t))"
proof (cases r)
  case (Inr a)
  then show ?thesis by (simp add: respond_def json_response_def)
next
  case (Inl e)
  then show ?thesis
    using assms
    by (cases e; cases "case e of Failed a \<Rightarrow> a")
      (auto simp: respond_def into_response_def json_response_def)
qed

lemma db_failure_text: "db_failure r \<Longrightarrow> \<exists>u. r = Inl (Failed (Internal (''database error: '' @ u)))"
  unfolding db_failure_def
  by (auto split: sum.splits failure.splits api_error.splits) (metis append_take_drop_id append_Cons append_Nil)

lemma db_failure_answers: "db_failure r \<Longrightarrow> answers X proving False r"
  using db_failure_text [of r] by (auto simp: internal_text_def)

text \<open>Without the database, only the proof itself can fail internally.\<close>

lemma parse_fr_hex_quiet: "parse_fr_hex X h = Inl e \<Longrightarrow> \<exists>m. e = BadRequest m"
  by (auto simp: parse_fr_hex_def result_iffs split: if_splits)

lemma prove_spec_answers: "answers X True False (map_err Failed (prove_spec X k rng ls pub req))"
proof (cases "prove_spec X k rng ls pub req")
  case (Inl e)
  have "e = Internal t \<Longrightarrow> internal_text X True t" for t
    using Inl parse_fr_hex_quiet [of X "req_secret req"]
    by (auto simp: prove_spec_def result_iffs blocking_result_def api_error_from_crypto_def internal_text_def
        split: if_splits option.splits sum.splits failure.splits crypto_error.splits)
  with Inl show ?thesis by (cases e) simp_all
qed simp

lemma run_finish:
  "run_on ex (finish to_json p) s = (case run_on ex p s of (r, s') \<Rightarrow> (respond to_json r, s'))"
  by (simp add: finish_def run_bind split: prod.splits)

definition is_proving :: "'rng call \<Rightarrow> bool" where
  "is_proving c = (case c of CallProve i req rng \<Rightarrow> True | _ \<Rightarrow> False)"

context hex_codec
begin

lemma finish_answered:
  assumes run: "run_on conn_exec (finish to_json p) s = (r, s')"
    and result: "\<And>r1. run_on conn_exec p s = (r1, s') \<Longrightarrow>
      conn_ok X s' \<and> answers X (is_proving c) (conn_calm s \<and> \<not> is_proving c) r1"
  shows "\<exists>resp. r = Some resp \<and> conn_ok X s' \<and> (status resp \<in> {200, 400, 404, 409} \<or>
    \<not> (conn_calm s \<and> \<not> is_proving c) \<and> status resp = 500 \<and>
      (\<exists>t. body resp = Some (JObject [(''error'', JString t)]) \<and> internal_text X (is_proving c) t))"
proof -
  obtain r1 where 1: "run_on conn_exec p s = (r1, s')" "r = respond to_json r1"
    using run by (auto simp: run_finish split: prod.splits)
  show ?thesis
    using respond_answers [of X "is_proving c" "conn_calm s \<and> \<not> is_proving c" r1 to_json] result [OF 1(1)] 1(2)
    by blast
qed

lemma run_ping:
  "conn_ok X s \<Longrightarrow> run_on conn_exec ping s = (r, s') \<Longrightarrow>
     conn_ok X s' \<and> (r = Inr () \<or> is_db_error r \<and> \<not> conn_calm s)"
  using run_query [of SelectOne no_rows s r s' Done "db s"]
  by (auto simp: ping_def sql_eval_def no_rows_def conn_ok_def)

lemma handle_answered:
  assumes ok: "conn_ok X s" and run: "run_on conn_exec (handle X k c) s = (r, s')"
  shows "\<exists>resp. r = Some resp \<and> conn_ok X s' \<and> (status resp \<in> {200, 400, 404, 409} \<or>
    \<not> (conn_calm s \<and> \<not> is_proving c) \<and>
    (status resp = 503 \<and> c = CallHealth \<or> status resp = 500 \<and>
      (\<exists>t. body resp = Some (JObject [(''error'', JString t)]) \<and> internal_text X (is_proving c) t)))"
proof (cases c)
  case CallHealth
  obtain r1 s1 where 1: "run_on conn_exec ping s = (r1, s1)" by (rule prod.exhaust)
  then show ?thesis
    using run CallHealth run_ping [OF ok 1]
    by (cases r1) (auto simp: handle_def health_def run_bind json_response_def is_proving_def)
next
  case CallVersion
  then show ?thesis using run ok by (auto simp: handle_def json_response_def)
next
  case CallListIssuers
  have "run_on conn_exec (finish issuers_json list_issuers) s = (r, s')"
    using run CallListIssuers by (simp add: handle_def)
  from finish_answered [OF this, of c] show ?thesis
    using store_list_issuers_result [OF ok] db_failure_answers CallListIssuers
    by (fastforce simp: is_proving_def)
next
  case (CallIssuerInfo i)
  have "run_on conn_exec (finish issuer_info_json (issuer_info X i)) s = (r, s')"
    using run CallIssuerInfo by (simp add: handle_def)
  from finish_answered [OF this, of c] show ?thesis
    using store_issuer_info_result [OF ok] db_failure_answers CallIssuerInfo
    by (fastforce simp: is_proving_def split: if_splits)
next
  case (CallAddLeaf i h)
  have run': "run_on conn_exec (finish add_leaf_json (issuer_add_leaf X i h)) s = (r, s')"
    using run CallAddLeaf by (simp add: handle_def)
  have "conn_ok X s' \<and> answers X (is_proving c) (conn_calm s \<and> \<not> is_proving c) r1"
    if "run_on conn_exec (issuer_add_leaf X i h) s = (r1, s')" for r1
    using store_add_leaf_result [OF ok that] parse_fr_hex_quiet [of X h] CallAddLeaf
    by (auto simp: is_proving_def dest: db_failure_answers split: sum.splits if_splits)
  from finish_answered [OF run' this] show ?thesis by blast
next
  case (CallPublish i)
  have "run_on conn_exec (finish root_json (publish X i)) s = (r, s')"
    using run CallPublish by (simp add: handle_def)
  from finish_answered [OF this, of c] show ?thesis
    using store_publish_result [OF ok] db_failure_answers CallPublish
    by (fastforce simp: is_proving_def)
next
  case (CallGetRoot i)
  have "run_on conn_exec (finish root_json (get_root X i)) s = (r, s')"
    using run CallGetRoot by (simp add: handle_def)
  from finish_answered [OF this, of c] show ?thesis
    using store_get_root_result [OF ok] db_failure_answers CallGetRoot
    by (fastforce simp: is_proving_def split: option.splits)
next
  case (CallProve i req rng)
  have "run_on conn_exec (finish prove_json (holder_prove X k rng i req)) s = (r, s')"
    using run CallProve by (simp add: handle_def)
  from finish_answered [OF this, of c] show ?thesis
    using store_prove_result [OF ok] db_failure_answers prove_spec_answers CallProve
    by (fastforce simp: is_proving_def)
qed

end

subsection \<open>The two halves of a publication\<close>

text \<open>
  \<open>publish\<close> reads the leaves and stores the root in separate requests.
\<close>

text \<open>\<open>publish\<close> after its first request.\<close>

definition publish_rest ::
  "('pk, 'rng, 'z) externs_scheme \<Rightarrow> string \<Rightarrow> fr list \<Rightarrow> response option prog" where
  "publish_rest X i ls =
     finish root_json (store_call (set_published_root X i (root_of ls)) (\<lambda>_.
       Return (Inr \<lparr> rr_root = hex_encode X (fr_be (root_of ls)) \<rparr>)))"

definition root_answer :: "('pk, 'rng, 'z) externs_scheme \<Rightarrow> fr \<Rightarrow> response option" where
  "root_answer X root = respond root_json (Inr \<lparr> rr_root = hex_encode X (fr_be root) \<rparr>)"

context hex_codec
begin

lemma publish_first_request:
  assumes "store_ok X d" "abs_leaves X d i \<noteq> []"
  shows "\<exists>k. handle X ks (CallPublish i) = Call (Pool (SelectLeaves i)) k \<and>
    exec Fine (Pool (SelectLeaves i)) None d = (Result (Rows (map row_commitment (rows_of i (leaf_rows d)))), None, d) \<and>
    k (Result (Rows (map row_commitment (rows_of i (leaf_rows d))))) = publish_rest X i (abs_leaves X d i)"
  using assms(2) from_leaves_tree_of [OF abs_leaves_bound [OF assms(1)]]
  by (simp add: handle_def finish_def publish_def store_call_def bind_ok_def prog_map_err_def
      stored_leaves_def query_def exec_def sql_eval_def select_leaves [OF assms(1)] strings_def
      collect_rows [OF assms(1)] value_or_def publish_rest_def)

lemma run_publish_rest:
  assumes "conn_ok X c" "conn_calm c"
  shows "\<exists>c'. run_on conn_exec (publish_rest X i ls) c = (root_answer X (root_of ls), c') \<and>
    conn_ok X c' \<and> conn_calm c' \<and> abs_leaves X (db c') = abs_leaves X (db c) \<and>
    abs_published X (db c') = (abs_published X (db c))(i \<mapsto> root_of ls)"
proof -
  obtain r c' where run: "run_on conn_exec (set_published_root X i (root_of ls)) c = (r, c')"
    by (rule prod.exhaust)
  note res = run_set_published_root [OF assms(1) run]
  have "r = Inr ()" using res assms(2) by auto
  with res run assms(2) show ?thesis
    by (auto simp: publish_rest_def finish_def run_simps run_store_call root_answer_def)
qed

lemma connected_ok: "store_ok X d \<Longrightarrow> conn_ok X (connected [] d) \<and> conn_calm (connected [] d)"
  by (simp add: connected_def conn_ok_def conn_calm_def)

lemma connected_sel [simp]: "db (connected fs d) = d" "tx (connected fs d) = None"
  by (simp_all add: connected_def)

end

end
