(* ===== verification/Keysource.thy ===== *)
theory Keysource
  imports Crypto Text
begin

text \<open>
  Where the keys come from at boot, \<open>src/keysource.rs\<close>: the environment, the three sources in their
  order of precedence, the HTTP fetch, and the pin on the digest of the verifying key; which keys each
  source provides, what the pin guarantees, and that saved keys are loaded back. The
  environment is a map from names to values (\<open>None\<close> also for a value that is not UTF-8), the HTTP
  client a function from URLs to outcomes.
\<close>

subsection \<open>Environment\<close>

type_synonym environment = "string \<Rightarrow> string option"

definition ENV_KEYS_URL :: string where
  "ENV_KEYS_URL = ''VEILPROOF_KEYS_URL''"

definition ENV_KEYS_DIR :: string where
  "ENV_KEYS_DIR = ''VEILPROOF_KEYS_DIR''"

definition ENV_VK_SHA256 :: string where
  "ENV_VK_SHA256 = ''VEILPROOF_VK_SHA256''"

definition env_opt :: "environment \<Rightarrow> string \<Rightarrow> string option" where
  "env_opt env name =
     (case env name of
        Some v \<Rightarrow> if trim v \<noteq> [] then Some (trim v) else None
      | None \<Rightarrow> None)"

subsection \<open>Fetching\<close>

text \<open>
  \<open>NoResponse\<close>: the request failed. \<open>Response code b\<close>: the status code and the body, which may
  itself fail to arrive.
\<close>

datatype http_outcome = NoResponse string | Response nat "string + u8 list"

datatype key_source_error =
    Fetch string string
  | Status string nat
  | KeyIo key_io_error
  | VkMismatch string string
  | BadDigest

definition is_success :: "nat \<Rightarrow> bool" where
  "is_success code \<longleftrightarrow> 200 \<le> code \<and> code \<le> 299"

definition fetch :: "(string \<Rightarrow> http_outcome) \<Rightarrow> string \<Rightarrow> key_source_error + u8 list" where
  "fetch http url =
     (case http url of
        NoResponse source \<Rightarrow> Inl (Fetch url source)
      | Response code b \<Rightarrow>
          if \<not> is_success code then Inl (Status url code)
          else map_err (Fetch url) b)"

subsection \<open>The pin\<close>

definition eq_ignore_ascii_case :: "string \<Rightarrow> string \<Rightarrow> bool" where
  "eq_ignore_ascii_case a b \<longleftrightarrow> to_ascii_lowercase a = to_ascii_lowercase b"

definition verify_digest ::
  "('pk, 'rng, 'z) externs_scheme \<Rightarrow> 'pk keys \<Rightarrow> string \<Rightarrow> key_source_error + unit" where
  "verify_digest X k expected =
     (if length expected \<noteq> 64 \<or> \<not> list_all is_hex_digit expected then Inl BadDigest
      else let actual = hex_encode X (vk_digest X k) in
        if \<not> eq_ignore_ascii_case actual expected
        then Inl (VkMismatch (to_ascii_lowercase expected) actual)
        else Inr ())"

subsection \<open>Loading\<close>

text \<open>The base URL is formatted into the two addresses.\<close>

definition keys_from_url ::
  "('pk, 'rng, 'z) externs_scheme \<Rightarrow> (string \<Rightarrow> http_outcome) \<Rightarrow> string \<Rightarrow> key_source_error + 'pk keys" where
  "keys_from_url X http url =
     (let base = trim_end_matches (CHR ''/'') url in
      try_r (fetch http (base @ ''/pk.bin'')) (\<lambda>pk_bytes.
      try_r (fetch http (base @ ''/vk.bin'')) (\<lambda>vk_bytes.
      map_err KeyIo (from_bytes X pk_bytes vk_bytes))))"

definition load_from_env ::
  "('pk, 'rng, 'z) externs_scheme \<Rightarrow> environment \<Rightarrow> (string \<Rightarrow> http_outcome) \<Rightarrow> file_system \<Rightarrow>
     key_source_error + 'pk keys" where
  "load_from_env X env http fs =
     try_r (case (env_opt env ENV_KEYS_URL, env_opt env ENV_KEYS_DIR) of
              (Some url, _) \<Rightarrow> keys_from_url X http url
            | (None, Some dir) \<Rightarrow> map_err KeyIo (load_keys X dir fs)
            | (None, None) \<Rightarrow> Inr (dev_keys X)) (\<lambda>k.
     try_r (case env_opt env ENV_VK_SHA256 of
              Some expected \<Rightarrow> verify_digest X k expected
            | None \<Rightarrow> Inr ()) (\<lambda>_.
     Inr k))"

subsection \<open>Blank variables count as unset\<close>

lemma env_opt_None_iff: "env_opt env n = None \<longleftrightarrow> env n = None \<or> (\<exists>v. env n = Some v \<and> trim v = [])"
  by (auto simp: env_opt_def split: option.splits)

lemma env_opt_Some_iff: "env_opt env n = Some v \<longleftrightarrow> (\<exists>u. env n = Some u \<and> v = trim u \<and> v \<noteq> [])"
  by (auto simp: env_opt_def split: option.splits)

lemma trim_idem_hex: "\<forall>c \<in> set v. is_hex_digit c \<Longrightarrow> v \<noteq> [] \<Longrightarrow> env n = Some v \<Longrightarrow> env_opt env n = Some v"
  by (simp add: env_opt_Some_iff trim_hex)

subsection \<open>Where the keys come from\<close>

text \<open>
  What the network and the directory hold, and the keys that two byte strings stand for.
\<close>

definition served_at :: "(string \<Rightarrow> http_outcome) \<Rightarrow> string \<Rightarrow> u8 list \<Rightarrow> bool" where
  "served_at http url bs \<longleftrightarrow> (\<exists>code. http url = Response code (Inr bs) \<and> 200 \<le> code \<and> code \<le> 299)"

definition readable_at :: "file_system \<Rightarrow> string \<Rightarrow> u8 list \<Rightarrow> bool" where
  "readable_at fs path bs \<longleftrightarrow> files fs path = Some bs \<and> \<not> unreadable fs path"

definition stands_for :: "('pk, 'rng, 'z) externs_scheme \<Rightarrow> u8 list \<Rightarrow> u8 list \<Rightarrow> 'pk keys \<Rightarrow> bool" where
  "stands_for X pk_bytes vk_bytes k \<longleftrightarrow>
     pk_from_bytes X pk_bytes = Some (pk k) \<and> vk_from_bytes X vk_bytes = Some (vk k)"

text \<open>A base URL is used without its trailing slashes.\<close>

definition key_url :: "string \<Rightarrow> string \<Rightarrow> string" where
  "key_url url name = trim_end_matches (CHR ''/'') url @ ''/'' @ name"

lemma fetch_ok: "fetch http url = Inr bs \<longleftrightarrow> served_at http url bs"
  by (auto simp: fetch_def served_at_def is_success_def result_iffs split: http_outcome.splits if_splits)

lemma fetch_error:
  "fetch http url = Inl e \<Longrightarrow>
     (\<exists>text. e = Fetch url text) \<or> (\<exists>code. e = Status url code \<and> \<not> (200 \<le> code \<and> code \<le> 299))"
  by (auto simp: fetch_def is_success_def result_iffs split: http_outcome.splits if_splits)

lemma fs_read_ok: "fs_read path fs = Inr bs \<longleftrightarrow> readable_at fs path bs"
  by (auto simp: fs_read_def readable_at_def ok_or_def split: option.splits)

lemma from_bytes_ok: "from_bytes X p v = Inr k \<longleftrightarrow> stands_for X p v k"
  by (cases k) (auto simp: from_bytes_def stands_for_def result_iffs)

lemma keys_from_url_ok:
  "keys_from_url X http url = Inr k \<longleftrightarrow>
     (\<exists>p v. served_at http (key_url url ''pk.bin'') p \<and> served_at http (key_url url ''vk.bin'') v \<and> stands_for X p v k)"
  by (auto simp: keys_from_url_def Let_def result_iffs fetch_ok from_bytes_ok key_url_def)

lemma load_keys_ok:
  "load_keys X dir fs = Inr k \<longleftrightarrow>
     (\<exists>p v. readable_at fs (path_join dir ''pk.bin'') p \<and> readable_at fs (path_join dir ''vk.bin'') v \<and>
       stands_for X p v k)"
  by (auto simp: load_keys_def result_iffs fs_read_ok from_bytes_ok)

lemma keys_from_url_error:
  "keys_from_url X http url = Inl e \<Longrightarrow>
     (\<exists>name \<in> {''pk.bin'', ''vk.bin''}. (\<exists>text. e = Fetch (key_url url name) text) \<or>
        (\<exists>code. e = Status (key_url url name) code \<and> \<not> (200 \<le> code \<and> code \<le> 299))) \<or>
     (\<exists>io. e = KeyIo io)"
  by (auto simp: keys_from_url_def Let_def result_iffs key_url_def dest!: fetch_error)

text \<open>The keys that the configured source provides.\<close>

definition provided :: "('pk, 'rng, 'z) externs_scheme \<Rightarrow> environment \<Rightarrow> (string \<Rightarrow> http_outcome) \<Rightarrow> file_system \<Rightarrow>
    'pk keys \<Rightarrow> bool" where
  "provided X env http fs k \<longleftrightarrow>
     (case (env_opt env ENV_KEYS_URL, env_opt env ENV_KEYS_DIR) of
        (Some url, _) \<Rightarrow>
          (\<exists>p v. served_at http (key_url url ''pk.bin'') p \<and> served_at http (key_url url ''vk.bin'') v \<and>
            stands_for X p v k)
      | (None, Some dir) \<Rightarrow>
          (\<exists>p v. readable_at fs (path_join dir ''pk.bin'') p \<and> readable_at fs (path_join dir ''vk.bin'') v \<and>
            stands_for X p v k)
      | (None, None) \<Rightarrow> k = dev_keys X)"

lemma load_from_env_ok:
  "load_from_env X env http fs = Inr k \<longleftrightarrow>
     provided X env http fs k \<and>
     (case env_opt env ENV_VK_SHA256 of None \<Rightarrow> True | Some expected \<Rightarrow> verify_digest X k expected = Inr ())"
  by (auto simp: load_from_env_def provided_def result_iffs keys_from_url_ok load_keys_ok split: option.splits)

lemma verify_digest_error: "verify_digest X k expected = Inl e \<Longrightarrow> e = BadDigest \<or> (\<exists>x y. e = VkMismatch x y)"
  by (auto simp: verify_digest_def Let_def split: if_splits)

text \<open>Every failure is that of the configured source or of the pin.\<close>

lemma load_from_env_error:
  assumes "load_from_env X env http fs = Inl e"
  shows "case e of
      Fetch address text \<Rightarrow> \<exists>url. env_opt env ENV_KEYS_URL = Some url \<and> address \<in> key_url url ` {''pk.bin'', ''vk.bin''}
    | Status address code \<Rightarrow> (\<exists>url. env_opt env ENV_KEYS_URL = Some url \<and> address \<in> key_url url ` {''pk.bin'', ''vk.bin''}) \<and>
        \<not> (200 \<le> code \<and> code \<le> 299)
    | KeyIo io \<Rightarrow> env_opt env ENV_KEYS_URL \<noteq> None \<or> env_opt env ENV_KEYS_DIR \<noteq> None
    | _ \<Rightarrow> env_opt env ENV_VK_SHA256 \<noteq> None"
  using assms
  by (auto simp: load_from_env_def result_iffs split: option.splits
      dest!: keys_from_url_error verify_digest_error)

subsection \<open>What the pin guarantees\<close>

text \<open>The pin is checked last, on the keys that the source delivers without it.\<close>

lemma load_then_pin:
  assumes "load_from_env X (env(ENV_VK_SHA256 := None)) http fs = Inr k"
    and "env_opt env ENV_VK_SHA256 = Some expected"
  shows "load_from_env X env http fs = try_r (verify_digest X k expected) (\<lambda>_. Inr k)"
proof -
  have "env_opt (env(ENV_VK_SHA256 := None)) n = (if n = ENV_VK_SHA256 then None else env_opt env n)" for n
    by (simp add: env_opt_def)
  moreover have "ENV_KEYS_URL \<noteq> ENV_VK_SHA256" "ENV_KEYS_DIR \<noteq> ENV_VK_SHA256"
    by (simp_all add: ENV_KEYS_URL_def ENV_KEYS_DIR_def ENV_VK_SHA256_def)
  ultimately show ?thesis using assms by (auto simp: load_from_env_def result_iffs)
qed

context hex_codec
begin

text \<open>An accepted pin decodes to the digest of the loaded key, whatever its case.\<close>

lemma verify_digest_ok:
  assumes "length (sha256 X (vk_digest_input (encoded_vk k))) = 32"
  shows "verify_digest X k expected = Inr () \<longleftrightarrow> hex_decode X expected = Some (vk_digest X k)"
proof
  assume v: "verify_digest X k expected = Inr ()"
  then have l: "length expected = 64" "\<forall>c \<in> set expected. is_hex_digit c"
    and eq: "to_ascii_lowercase (hex_encode X (vk_digest X k)) = to_ascii_lowercase expected"
    by (auto simp: verify_digest_def eq_ignore_ascii_case_def list_all_iff Let_def split: if_splits)
  then obtain bs where bs: "hex_decode X expected = Some bs"
    using decode_Some_iff [of expected] by auto
  have "hex_encode X bs = hex_encode X (vk_digest X k)"
    using encode_decode [OF bs] eq encode_is_lower by simp
  then show "hex_decode X expected = Some (vk_digest X k)" using bs by (simp add: encode_inj)
next
  assume d: "hex_decode X expected = Some (vk_digest X k)"
  then have "length expected = 64" "list_all is_hex_digit expected"
    using decode_length [OF d] decode_Some_iff [of expected] assms by (auto simp: vk_digest_def list_all_iff)
  moreover have "eq_ignore_ascii_case (hex_encode X (vk_digest X k)) expected"
    by (metis encode_decode d encode_is_lower eq_ignore_ascii_case_def)
  ultimately show "verify_digest X k expected = Inr ()" by (simp add: verify_digest_def Let_def)
qed

lemma load_pinned:
  assumes load: "load_from_env X env http fs = Inr k" and pin: "env_opt env ENV_VK_SHA256 = Some expected"
    and sha: "\<And>bs. length (sha256 X bs) = 32"
  shows "hex_decode X expected = Some (vk_digest X k)"
  using load pin verify_digest_ok [OF sha] by (auto simp: load_from_env_def result_iffs)

end

subsection \<open>Saved keys are loaded back\<close>

lemma path_join_inj: "path_join dir a = path_join dir b \<longleftrightarrow> a = b"
  by (simp add: path_join_def)

lemma pk_path_vk_path [simp]:
  "path_join dir ''pk.bin'' \<noteq> path_join dir ''vk.bin''" "path_join dir ''vk.bin'' \<noteq> path_join dir ''pk.bin''"
  by (simp_all add: path_join_inj)

lemma save_files:
  assumes "save_keys X k dir fs = (Inr (), fs')"
  shows "fs' = fs\<lparr> files := (files fs)(path_join dir ''pk.bin'' \<mapsto> pk_to_bytes X (pk k),
    path_join dir ''vk.bin'' \<mapsto> vk_to_bytes X (vk k)) \<rparr>"
  using assms
  by (auto simp: save_keys_def fs_create_dir_all_def fs_write_def split: if_splits option.splits)

lemma save_load:
  assumes "key_serialization X" and "save_keys X k dir fs = (Inr (), fs')" and "\<forall>p. \<not> unreadable fs p"
  shows "load_keys X dir fs' = Inr k"
  using assms(1,3)
  by (simp add: load_keys_def save_files [OF assms(2)] fs_read_def from_bytes_def key_serialization_def)

text \<open>
  A save over existing keys that fails at the second file leaves the new proving key beside the old
  verifying key, and the directory loads.
\<close>

lemma interrupted_save:
  assumes ser: "key_serialization X" and old: "save_keys X k0 dir fs = (Inr (), fs1)"
    and read: "\<forall>p. \<not> unreadable fs p" and ok: "\<forall>p. write_fault fs p = None"
    and fault: "fs2 = fs1\<lparr> write_fault := (\<lambda>p. None)(path_join dir ''vk.bin'' \<mapsto> files fs1 (path_join dir ''vk.bin'')) \<rparr>"
    and dir: "path_join dir ''vk.bin'' \<noteq> dir"
  shows "\<exists>fs3. save_keys X k dir fs2 = (Inl Io, fs3) \<and> load_keys X dir fs3 = Inr \<lparr> pk = pk k, vk = vk k0 \<rparr>"
  using ser read dir dir [symmetric]
  by (simp add: save_keys_def fs_create_dir_all_def fs_write_def fault save_files [OF old] load_keys_def
      fs_read_def from_bytes_def key_serialization_def)

lemma path_join_longer: "name \<noteq> [] \<Longrightarrow> path_join dir name \<noteq> dir"
  by (auto simp: path_join_def)

end
