(* ===== verification/Cli.thy ===== *)
theory Cli
  imports Api Keysource
begin

text \<open>
  The command-line programs: \<open>src/bin/commit.rs\<close>, \<open>src/bin/keygen.rs\<close> and \<open>src/bin/vk.rs\<close>. A run is
  the lines it prints to standard output and its result; \<open>args\<close> are the arguments after the
  program's name.
\<close>

subsection \<open>veilproof-commit\<close>

definition parse_secret :: "('pk, 'rng, 'z) externs_scheme \<Rightarrow> string \<Rightarrow> string + fr" where
  "parse_secret X s =
     try_r (ok_or ''the secret must be hex'' (hex_decode X (trim s))) (\<lambda>bytes.
     if length bytes = 32 then Inr (fr_from_be bytes)
     else Inl ''the secret must be 32 bytes (64 hex chars)'')"

text \<open>\<open>os_secret\<close> is the field element the operating system's generator delivers.\<close>

definition commit_main ::
  "('pk, 'rng, 'z) externs_scheme \<Rightarrow> fr \<Rightarrow> string list \<Rightarrow> string + string list" where
  "commit_main X os_secret args =
     try_r (case args of
              [] \<Rightarrow> Inr os_secret
            | [hex_secret] \<Rightarrow> parse_secret X hex_secret
            | _ \<Rightarrow> Inl ''usage: veilproof-commit [<secret-hex>]'') (\<lambda>secret.
     let commitment = leaf_commitment secret in
     Inr [''secret     = '' @ hex_encode X (fr_be secret),
          ''commitment = '' @ hex_encode X (fr_be commitment)])"

subsection \<open>Printing a verifying key\<close>

fun decimal_digits :: "nat \<Rightarrow> string" where
  "decimal_digits n =
     (if n < 10 then [char_of (48 + n)] else decimal_digits (n div 10) @ [char_of (48 + n mod 10)])"

declare decimal_digits.simps [simp del]

definition vk_lines :: "('pk, 'rng, 'z) externs_scheme \<Rightarrow> encoded_verifying_key \<Rightarrow> string list" where
  "vk_lines X e =
     [''# Verifying key (Soroban encoding) for veilproof-registry:'',
      ''alpha_g1 = '' @ hex_encode X (enc_alpha_g1 e),
      ''beta_g2  = '' @ hex_encode X (enc_beta_g2 e),
      ''gamma_g2 = '' @ hex_encode X (enc_gamma_g2 e),
      ''delta_g2 = '' @ hex_encode X (enc_delta_g2 e)] @
     map (\<lambda>(i, ic). ''ic['' @ decimal_digits i @ '']   = '' @ hex_encode X ic)
       (zip [0..<length (enc_ic e)] (enc_ic e))"

subsection \<open>veilproof-keygen and veilproof-vk\<close>

datatype cli_error = Usage string | KeyError key_io_error

text \<open>\<open>os_rng\<close> is the operating system's generator. The file system is returned on failure too.\<close>

definition keygen_main ::
  "('pk, 'rng, 'z) externs_scheme \<Rightarrow> 'rng \<Rightarrow> string list \<Rightarrow> file_system \<Rightarrow>
     (cli_error + string list) \<times> file_system" where
  "keygen_main X os_rng args fs =
     (case args of
        [] \<Rightarrow> (Inl (Usage ''usage: veilproof-keygen <output-dir>''), fs)
      | dir # _ \<Rightarrow>
          let k = generate_secure X os_rng in
          (case save_keys X k dir fs of
             (Inl e, fs') \<Rightarrow> (Inl (KeyError e), fs')
           | (Inr _, fs') \<Rightarrow> (Inr (vk_lines X (encoded_vk k)), fs')))"

definition vk_main ::
  "('pk, 'rng, 'z) externs_scheme \<Rightarrow> string list \<Rightarrow> file_system \<Rightarrow> cli_error + string list" where
  "vk_main X args fs =
     (case args of
        [] \<Rightarrow> Inl (Usage ''usage: veilproof-vk <keys-dir>'')
      | dir # _ \<Rightarrow>
          try_r (map_err KeyError (load_keys X dir fs)) (\<lambda>k.
          Inr (vk_lines X (encoded_vk k) @
            [[], ''# Set this so the server checks its own setup at boot:'',
             ''VEILPROOF_VK_SHA256='' @ hex_encode X (vk_digest X k)])))"

text \<open>The printed digest is a pin the server accepts for the same keys.\<close>

context hex_codec
begin

lemma commit_round_trip:
  "commit_main X os_secret [hex_encode X (fr_be secret)] =
     Inr [''secret     = '' @ hex_encode X (fr_be secret),
          ''commitment = '' @ hex_encode X (fr_be (leaf_commitment secret))]"
proof -
  have "\<forall>c \<in> set (hex_encode X (fr_be secret)). is_hex_digit c"
    using decode_Some_iff [of "hex_encode X (fr_be secret)"] decode_encode by auto
  then show ?thesis
    by (simp add: commit_main_def parse_secret_def trim_hex decode_encode Let_def)
qed

lemma printed_pin_accepted:
  assumes "length (sha256 X (vk_digest_input (encoded_vk k))) = 32"
  shows "verify_digest X k (hex_encode X (vk_digest X k)) = Inr ()"
  using verify_digest_ok [OF assms] by (simp add: decode_encode)

lemma keygen_then_vk:
  assumes ser: "key_serialization X" and gen: "keygen_main X os_rng (dir # args) fs = (Inr out, fs')"
    and read: "\<forall>p. \<not> unreadable fs p"
  shows "vk_main X [dir] fs' = Inr (out @
    [[], ''# Set this so the server checks its own setup at boot:'',
     ''VEILPROOF_VK_SHA256='' @ hex_encode X (vk_digest X (generate_secure X os_rng))])"
proof -
  have "save_keys X (generate_secure X os_rng) dir fs = (Inr (), fs')"
    and "out = vk_lines X (encoded_vk (generate_secure X os_rng))"
    using gen by (auto simp: keygen_main_def Let_def split: prod.splits sum.splits)
  with save_load [OF ser _ read] show ?thesis by (simp add: vk_main_def)
qed

end

end
