(* ===== verification/Reference_Externs.thy ===== *)
theory Reference_Externs
  imports Server Cli
begin

text \<open>
  A concrete linking of the program, used to show that the assumptions on third-party code can
  hold together: the documented lowercase hex codec, an uncompressed key serialization, and an
  idealised Groth16 whose prover answers exactly when the circuit is satisfied and whose verifier
  accepts. It carries no cryptography and no property of the program depends on it.
\<close>

subsection \<open>Key serialization\<close>

definition g1_ser :: "g1_affine \<Rightarrow> u8 list" where
  "g1_ser p = fq_be (g1_x p) @ fq_be (g1_y p) @ [if g1_infinity p then 1 else 0]"

definition g1_deser :: "u8 list \<Rightarrow> g1_affine" where
  "g1_deser bs = \<lparr> g1_x = fq_at 0 bs, g1_y = fq_at 32 bs, g1_infinity = (bs ! 64 = 1) \<rparr>"

definition g2_ser :: "g2_affine \<Rightarrow> u8 list" where
  "g2_ser p = fq_be (c0 (g2_x p)) @ fq_be (c1 (g2_x p)) @ fq_be (c0 (g2_y p)) @ fq_be (c1 (g2_y p)) @
     [if g2_infinity p then 1 else 0]"

definition g2_deser :: "u8 list \<Rightarrow> g2_affine" where
  "g2_deser bs =
     \<lparr> g2_x = \<lparr> c0 = fq_at 0 bs, c1 = fq_at 32 bs \<rparr>, g2_y = \<lparr> c0 = fq_at 64 bs, c1 = fq_at 96 bs \<rparr>,
       g2_infinity = (bs ! 128 = 1) \<rparr>"

fun g1_list_deser :: "nat \<Rightarrow> u8 list \<Rightarrow> g1_affine list" where
  "g1_list_deser 0 bs = []"
| "g1_list_deser (Suc n) bs = g1_deser (take 65 bs) # g1_list_deser n (drop 65 bs)"

definition vk_ser :: "verifying_key \<Rightarrow> u8 list" where
  "vk_ser v = g1_ser (alpha_g1 v) @ g2_ser (beta_g2 v) @ g2_ser (gamma_g2 v) @ g2_ser (delta_g2 v) @
     concat (map g1_ser (gamma_abc_g1 v))"

definition vk_deser :: "u8 list \<Rightarrow> verifying_key" where
  "vk_deser bs =
     \<lparr> alpha_g1 = g1_deser (take 65 bs), beta_g2 = g2_deser (take 129 (drop 65 bs)),
       gamma_g2 = g2_deser (take 129 (drop 194 bs)), delta_g2 = g2_deser (take 129 (drop 323 bs)),
       gamma_abc_g1 = g1_list_deser ((length bs - 452) div 65) (drop 452 bs) \<rparr>"

lemma length_ser [simp]: "length (g1_ser p) = 65" "length (g2_ser q) = 129"
  by (simp_all add: g1_ser_def g2_ser_def)

lemma g1_deser_ser [simp]: "g1_deser (g1_ser p) = p"
  by (cases p) (simp add: g1_deser_def g1_ser_def fq_at_def nth_append)

lemma g2_deser_ser [simp]: "g2_deser (g2_ser p) = p"
  by (cases p; cases "g2_x p"; cases "g2_y p") (simp add: g2_deser_def g2_ser_def fq_at_def nth_append)

lemma g1_list_deser_ser: "g1_list_deser (length ps) (concat (map g1_ser ps)) = ps"
  by (induction ps) simp_all

lemma length_concat_g1_ser: "length (concat (map g1_ser ps)) = 65 * length ps"
  by (induction ps) simp_all

lemma vk_deser_ser: "vk_deser (vk_ser v) = v"
  by (cases v) (simp add: vk_deser_def vk_ser_def length_concat_g1_ser g1_list_deser_ser)

subsection \<open>The linking\<close>

definition origin :: g1_affine where
  "origin = \<lparr> g1_x = fq_of_nat 0, g1_y = fq_of_nat 0, g1_infinity = True \<rparr>"

definition origin2 :: g2_affine where
  "origin2 = \<lparr> g2_x = \<lparr> c0 = fq_of_nat 0, c1 = fq_of_nat 0 \<rparr>,
     g2_y = \<lparr> c0 = fq_of_nat 0, c1 = fq_of_nat 0 \<rparr>, g2_infinity = True \<rparr>"

definition ideal_vk :: verifying_key where
  "ideal_vk = \<lparr> alpha_g1 = origin, beta_g2 = origin2, gamma_g2 = origin2, delta_g2 = origin2,
     gamma_abc_g1 = [origin, origin, origin, origin] \<rparr>"

definition ideal_proof :: groth_proof where
  "ideal_proof = \<lparr> proof_a = origin, proof_b = origin2, proof_c = origin \<rparr>"

definition circuit_satisfied :: "merkle_circuit \<Rightarrow> bool" where
  "circuit_satisfied circ =
     (case prover_constraints circ of Inl _ \<Rightarrow> False | Inr s \<Rightarrow> satisfied_by s (own_assignment s))"

definition ideal_externs :: "(unit, nat) externs" where
  "ideal_externs =
     \<lparr> hex_encode = std_hex_encode, hex_decode = std_hex_decode,
       sha256 = (\<lambda>bs. vec_resize 32 0 bs),
       groth_setup = (\<lambda>circ rng. (((), ideal_vk), rng)),
       groth_prove = (\<lambda>_ circ rng.
         (if circuit_satisfied circ then Inr ideal_proof else Inl AssignmentMissing, rng)),
       groth_verify = (\<lambda>_ _ _. Inr True),
       pk_to_bytes = (\<lambda>_. []), pk_from_bytes = (\<lambda>_. Some ()),
       vk_to_bytes = vk_ser, vk_from_bytes = (\<lambda>bs. Some (vk_deser bs)),
       seed_from_u64 = (\<lambda>w. unat w), join_error_text = ''task panicked'' \<rparr>"

lemma ideal_externs_sel [simp]:
  "hex_encode ideal_externs = std_hex_encode" "hex_decode ideal_externs = std_hex_decode"
  "sha256 ideal_externs = (\<lambda>bs. vec_resize 32 0 bs)"
  "groth_setup ideal_externs = (\<lambda>circ rng. (((), ideal_vk), rng))"
  "groth_prove ideal_externs = (\<lambda>_ circ rng.
     (if circuit_satisfied circ then Inr ideal_proof else Inl AssignmentMissing, rng))"
  "groth_verify ideal_externs = (\<lambda>_ _ _. Inr True)"
  "pk_to_bytes ideal_externs = (\<lambda>_. [])" "pk_from_bytes ideal_externs = (\<lambda>_. Some ())"
  "vk_to_bytes ideal_externs = vk_ser" "vk_from_bytes ideal_externs = (\<lambda>bs. Some (vk_deser bs))"
  "seed_from_u64 ideal_externs = unat"
  by (simp_all add: ideal_externs_def fun_eq_iff)

interpretation ideal_hex: hex_codec ideal_externs
  by (rule std_hex_codec) simp_all

lemma ideal_groth16_complete: "groth16_complete ideal_externs"
  by (auto simp: groth16_complete_def synthesizes_def circuit_satisfied_def split: sum.splits)

lemma ideal_key_serialization: "key_serialization ideal_externs"
  by (simp add: key_serialization_def vk_deser_ser)

end
