(* ===== verification/Footprint.thy ===== *)
theory Footprint
  imports Api
begin

text \<open>
  Which requests a handler can issue at all, whatever the replies, and from it which rows a call can
  touch. \<open>issues P p\<close> says that every request of the program \<open>p\<close> satisfies \<open>P\<close>.
\<close>

named_theorems footprint

primrec issues :: "(request \<Rightarrow> bool) \<Rightarrow> 'a prog \<Rightarrow> bool" where
  "issues P (Return a) \<longleftrightarrow> True"
| "issues P (Call rq k) \<longleftrightarrow> P rq \<and> (\<forall>r. issues P (k r))"

lemma issues_bind [footprint]:
  "issues P p \<Longrightarrow> (\<And>a. issues P (g a)) \<Longrightarrow> issues P (bind p g)"
  by (induction p) auto

lemma issues_bind_ok [footprint]:
  "issues P p \<Longrightarrow> (\<And>a. issues P (g a)) \<Longrightarrow> issues P (bind_ok p g)"
  unfolding bind_ok_def by (rule issues_bind) (auto split: sum.splits)

lemma issues_map_err [footprint]: "issues P p \<Longrightarrow> issues P (prog_map_err f p)"
  unfolding prog_map_err_def by (rule issues_bind) auto

lemma issues_query [footprint]: "P (Pool s) \<Longrightarrow> issues P (query s f)"
  by (simp add: query_def split: reply.splits)

lemma issues_value_or [footprint]:
  "(\<And>a. r = Inr a \<Longrightarrow> issues P (g a)) \<Longrightarrow> issues P (value_or r g)"
  by (simp add: value_or_def split: sum.splits)

lemma issues_store_call [footprint]:
  "issues P p \<Longrightarrow> (\<And>a. issues P (g a)) \<Longrightarrow> issues P (store_call p g)"
  unfolding store_call_def by (intro issues_bind_ok issues_map_err)

lemma issues_spawn_blocking [footprint]: "P Blocking \<Longrightarrow> issues P (spawn_blocking a)"
  by (simp add: spawn_blocking_def)

lemma issues_Return [footprint]: "issues P (Return a)"
  by simp

lemma issues_fail [footprint]: "issues P (fail e)"
  by (simp add: fail_def)

text \<open>What every request of a program keeps, the program keeps.\<close>

lemma issues_keeps:
  assumes "issues P p" and "run_on conn_exec p c = (r, c')" and "J (tx c) (db c)"
    and "\<And>f rq t d rep t' d'. P rq \<Longrightarrow> J t d \<Longrightarrow> exec f rq t d = (rep, t', d') \<Longrightarrow> J t' d'"
  shows "J (tx c') (db c')"
  using assms(1-3)
proof (induction p arbitrary: c)
  case (Call rq k)
  obtain rep t' d' where ex: "exec (next_fault (faults c)) rq (tx c) (db c) = (rep, t', d')"
    by (metis prod_cases3)
  have "J t' d'" using assms(4) [OF _ _ ex] Call.prems by simp
  moreover have step: "conn_exec rq c = (rep, \<lparr> tx = t', faults = tl (faults c), db = d' \<rparr>)"
    by (simp add: conn_exec_def ex)
  have "run_on conn_exec (k rep) \<lparr> tx = t', faults = tl (faults c), db = d' \<rparr> = (r, c')"
    using Call.prems(2) by (simp add: step)
  ultimately show ?case using Call.IH [of "k rep"] Call.prems(1) by simp
qed simp

subsection \<open>Reading\<close>

definition is_read :: "request \<Rightarrow> bool" where
  "is_read rq \<longleftrightarrow> (case rq of
     Pool s \<Rightarrow> (case s of InsertIssuer n \<Rightarrow> False | UpdateRoot n h \<Rightarrow> False | InsertNullifier n h \<Rightarrow> False | _ \<Rightarrow> True)
   | _ \<Rightarrow> False)"

lemma is_read_simps [simp]:
  "is_read (Pool SelectOne)" "is_read (Pool (CountLeaves i))" "is_read (Pool (SelectLeaves i))"
  "is_read (Pool SelectIssuers)" "is_read (Pool (CountIssuers i))" "is_read (Pool (SelectRoot i))"
  by (simp_all add: is_read_def)

lemma read_keeps: "is_read rq \<Longrightarrow> exec f rq t d = (rep, t', d') \<Longrightarrow> t' = t \<and> d' = d"
  by (auto simp: is_read_def exec_def sql_eval_def split: request.splits sql.splits)

lemma reading_program:
  assumes "issues is_read p" and "run_on conn_exec p c = (r, c')"
  shows "tx c' = tx c \<and> db c' = db c"
  by (rule issues_keeps [OF assms, where J = "\<lambda>t d. t = tx c \<and> d = db c"])
    (auto dest: read_keeps)

lemma reading_handlers [footprint]:
  "issues is_read ping" "issues is_read (stored_leaves X i)" "issues is_read (published_root X i)"
  "issues is_read store_list_issuers" "issues is_read (issuer_exists i)" "issues is_read (leaf_count i)"
  unfolding ping_def stored_leaves_def published_root_def store_list_issuers_def issuer_exists_def leaf_count_def
  by (simp_all add: footprint)

lemma issues_health: "issues is_read health"
  unfolding health_def by (intro footprint)

lemma issues_list_issuers: "issues is_read list_issuers"
  unfolding list_issuers_def by (intro footprint)

lemma issues_get_root: "issues is_read (get_root X i)"
  unfolding get_root_def by (intro footprint) (auto intro!: footprint split: option.splits)

lemma issues_issuer_info: "issues is_read (issuer_info X i)"
  unfolding issuer_info_def by (intro footprint) (auto intro!: footprint)

subsection \<open>Adding a leaf\<close>

definition adds_leaf :: "string \<Rightarrow> request \<Rightarrow> bool" where
  "adds_leaf i rq \<longleftrightarrow> (case rq of
     Pool s \<Rightarrow> s = InsertIssuer i
   | Tx (TxCountLeaves j) \<Rightarrow> j = i
   | Tx (TxInsertLeaf j p h) \<Rightarrow> j = i
   | _ \<Rightarrow> True)"

lemma issues_issuer_add_leaf: "issues (adds_leaf i) (issuer_add_leaf X i h)"
  unfolding issuer_add_leaf_def add_leaf_def ensure_issuer_def append_in_tx_def
  by (intro footprint)
    (auto simp: adds_leaf_def abort_def Let_def split: reply.splits sum.splits intro!: footprint)

definition root_column :: "database \<Rightarrow> string \<Rightarrow> string option" where
  "root_column d i = Option.bind (map_of (issuer_rows d) i) (\<lambda>r. r)"

text \<open>Relative to a first database: the other issuers' leaves, all roots and the nullifiers stay.\<close>

definition only_leaves_of :: "string \<Rightarrow> database \<Rightarrow> tx_state \<Rightarrow> database \<Rightarrow> bool" where
  "only_leaves_of i d0 t d \<longleftrightarrow>
     nullifier_rows d = nullifier_rows d0 \<and> root_column d = root_column d0 \<and>
     (\<forall>j. j \<noteq> i \<longrightarrow> rows_of j (leaf_rows d) = rows_of j (leaf_rows d0)) \<and>
     (case t of None \<Rightarrow> True | Some rows \<Rightarrow> \<forall>r \<in> set rows. row_issuer r = i)"

lemma root_column_insert: "root_column (d\<lparr> issuer_rows := issuer_rows d @ [(n, None)] \<rparr>) = root_column d"
  by (rule ext) (auto simp: root_column_def map_add_def split: option.splits)

lemma root_column_leaf_rows [simp]: "root_column (d\<lparr> leaf_rows := rows \<rparr>) = root_column d"
  by (rule ext) (simp add: root_column_def)

lemma adds_leaf_keeps:
  assumes "adds_leaf i rq" "only_leaves_of i d0 t d" "exec f rq t d = (rep, t', d')"
  shows "only_leaves_of i d0 t' d'"
proof (cases rq)
  case (Pool s)
  with assms show ?thesis
    by (cases "acts f")
      (auto simp: adds_leaf_def exec_def sql_eval_def only_leaves_of_def root_column_insert split: if_splits)
next
  case (Tx s)
  show ?thesis
  proof (cases s)
    case (TxCountLeaves j)
    with Tx assms show ?thesis
      by (cases t) (auto simp: exec_def tx_eval_def only_leaves_of_def split: if_splits)
  next
    case (TxInsertLeaf j p h)
    with Tx assms show ?thesis
      by (cases t) (auto simp: adds_leaf_def exec_def tx_eval_def only_leaves_of_def Let_def split: if_splits)
  qed
next
  case Commit
  show ?thesis
  proof (cases t)
    case None
    with Commit assms show ?thesis by (auto simp: exec_def only_leaves_of_def)
  next
    case (Some rows)
    then have rows: "\<forall>r \<in> set rows. row_issuer r = i" using assms(2) by (simp add: only_leaves_of_def)
    have "rows_of j rows = []" if "j \<noteq> i" for j
      by (rule rows_of_absent) (use rows that in auto)
    with Some Commit assms show ?thesis
      by (cases "acts f") (auto simp: exec_def only_leaves_of_def)
  qed
qed (use assms in \<open>auto simp: exec_def only_leaves_of_def split: if_splits\<close>)

subsection \<open>Publishing\<close>

definition publishes :: "string \<Rightarrow> request \<Rightarrow> bool" where
  "publishes i rq \<longleftrightarrow> rq = Pool (SelectLeaves i) \<or> rq = Pool (InsertIssuer i) \<or> (\<exists>h. rq = Pool (UpdateRoot i h))"

lemma issues_publish: "issues (publishes i) (publish X i)"
  unfolding publish_def stored_leaves_def set_published_root_def ensure_issuer_def
  by (intro footprint)
    (auto simp: publishes_def split: option.splits intro!: footprint)

definition only_root_of :: "string \<Rightarrow> database \<Rightarrow> tx_state \<Rightarrow> database \<Rightarrow> bool" where
  "only_root_of i d0 t d \<longleftrightarrow>
     leaf_rows d = leaf_rows d0 \<and> nullifier_rows d = nullifier_rows d0 \<and>
     (\<forall>j. j \<noteq> i \<longrightarrow> root_column d j = root_column d0 j)"

lemma root_column_update:
  "j \<noteq> n \<Longrightarrow> root_column (d\<lparr> issuer_rows := update_root n h (issuer_rows d) \<rparr>) j = root_column d j"
  by (simp add: root_column_def map_of_update)

lemma publishes_keeps:
  assumes "publishes i rq" "only_root_of i d0 t d" "exec f rq t d = (rep, t', d')"
  shows "only_root_of i d0 t' d'"
  using assms
  by (cases "acts f")
    (auto simp: publishes_def exec_def sql_eval_def only_root_of_def root_column_insert root_column_update
      split: if_splits)

subsection \<open>Proving\<close>

text \<open>Of the secret only the hex form of its nullifier can reach the database.\<close>

definition proves :: "string \<Rightarrow> string \<Rightarrow> request \<Rightarrow> bool" where
  "proves i h rq \<longleftrightarrow> rq = Pool (SelectLeaves i) \<or> rq = Pool (SelectRoot i) \<or> rq = Blocking \<or>
     rq = Pool (InsertNullifier i h)"

lemma issues_holder_prove:
  assumes "parse_fr_hex X (req_secret req) = Inr secret"
  shows "issues (proves i (to_hex X (nullifier secret))) (holder_prove X k rng i req)"
  unfolding holder_prove_def stored_leaves_def published_root_def prove_published_def record_nullifier_def
  by (intro footprint)
    (use assms in \<open>auto simp: proves_def Let_def split: option.splits intro!: footprint\<close>)

definition only_nullifier :: "string \<Rightarrow> string \<Rightarrow> database \<Rightarrow> tx_state \<Rightarrow> database \<Rightarrow> bool" where
  "only_nullifier i h d0 t d \<longleftrightarrow>
     leaf_rows d = leaf_rows d0 \<and> issuer_rows d = issuer_rows d0 \<and>
     set (nullifier_rows d) \<subseteq> insert (i, h) (set (nullifier_rows d0))"

lemma proves_keeps:
  assumes "proves i h rq" "only_nullifier i h d0 t d" "exec f rq t d = (rep, t', d')"
  shows "only_nullifier i h d0 t' d'"
proof -
  have "d' = d \<or> (i, h) \<notin> set (nullifier_rows d) \<and> d' = d\<lparr> nullifier_rows := nullifier_rows d @ [(i, h)] \<rparr>"
    using assms(1,3) by (auto simp: proves_def exec_def sql_eval_def split: if_splits)
  then show ?thesis
    using assms(2) unfolding only_nullifier_def by (elim disjE conjE) simp_all
qed

end
