(* ===== verification/Proof_Limit.thy ===== *)
theory Proof_Limit
  imports Api
begin

text \<open>
  The budget of concurrent proofs, \<open>limit_concurrent_proofs\<close> in \<open>src/api/mod.rs\<close>, with the blocking
  task that \<open>prove\<close> in \<open>src/api/holder.rs\<close> spawns. A request either takes a permit or is refused at
  once; a permit is given back when the request's future ends. The future ends with the response,
  after its task has finished, or is dropped when the client goes away, which does not stop the
  task. Which requests reach the limiter is \<open>metered\<close> in theory \<open>Http\<close>: all that name the proving path.
  The theory proves what the semaphore guarantees; that it guarantees no more when clients go away is
  shown in theory \<open>Runs\<close>.
\<close>

subsection \<open>State and steps\<close>

text \<open>The stage of an admitted request: before, during and after its blocking task.\<close>

datatype stage = Admitted | Proving | Proved

record limiter =
  available :: nat
  in_flight :: "(nat \<times> stage) list"
  tasks :: "nat list"
  refused :: "nat list"

definition new_limiter :: "nat \<Rightarrow> limiter" where
  "new_limiter capacity = \<lparr> available = capacity, in_flight = [], tasks = [], refused = [] \<rparr>"

text \<open>\<open>try_acquire_owned\<close>: a permit, or the refusal with status 503 and \<open>Retry-After\<close>.\<close>

definition try_acquire :: "nat \<Rightarrow> limiter \<Rightarrow> limiter" where
  "try_acquire r s =
     (if 0 < available s
      then s\<lparr> available := available s - 1, in_flight := in_flight s @ [(r, Admitted)] \<rparr>
      else s\<lparr> refused := refused s @ [r] \<rparr>)"

definition busy_response :: response where
  "busy_response =
     \<lparr> status = 503, retry_after = Some ''5'',
       body = Some (JObject [(''error'', JString ''the server is already generating as many proofs as it can handle; retry shortly'')]) \<rparr>"

text \<open>The middleware: without a permit the request is answered and the handler does not run.\<close>

definition limit_concurrent_proofs :: "limiter \<Rightarrow> response option prog \<Rightarrow> response option prog" where
  "limit_concurrent_proofs s next_run =
     (if 0 < available s then next_run else Return (Some busy_response))"

definition release :: "nat \<Rightarrow> limiter \<Rightarrow> limiter" where
  "release r s =
     s\<lparr> available := available s + 1, in_flight := filter (\<lambda>q. fst q \<noteq> r) (in_flight s) \<rparr>"

definition set_stage :: "nat \<Rightarrow> stage \<Rightarrow> limiter \<Rightarrow> limiter" where
  "set_stage r st s =
     s\<lparr> in_flight := map (\<lambda>q. if fst q = r then (r, st) else q) (in_flight s) \<rparr>"

text \<open>The blocking task of a request starts and ends.\<close>

abbreviation spawn_task :: "nat \<Rightarrow> limiter \<Rightarrow> limiter" where
  "spawn_task r s \<equiv> (set_stage r Proving s)\<lparr> tasks := tasks s @ [r] \<rparr>"

abbreviation finish_task :: "nat \<Rightarrow> limiter \<Rightarrow> limiter" where
  "finish_task r s \<equiv> (set_stage r Proved s)\<lparr> tasks := filter (\<lambda>q. q \<noteq> r) (tasks s) \<rparr>"

definition used_ids :: "limiter \<Rightarrow> nat set" where
  "used_ids s = fst ` set (in_flight s) \<union> set (tasks s) \<union> set (refused s)"

text \<open>
  \<open>arrive\<close>: a request reaches the limiter. \<open>spawn\<close>: its handler spawns the blocking task.
  \<open>finish\<close>: a task ends. \<open>respond\<close>: the handler returns, after its task or with an early error.
  \<open>cancel\<close>: the client goes away and the future is dropped, whatever its stage.
\<close>

inductive limiter_step :: "limiter \<Rightarrow> limiter \<Rightarrow> bool" where
  arrive: "r \<notin> used_ids s \<Longrightarrow> limiter_step s (try_acquire r s)"
| spawn: "(r, Admitted) \<in> set (in_flight s) \<Longrightarrow>
    limiter_step s (spawn_task r s)"
| finish: "r \<in> set (tasks s) \<Longrightarrow>
    limiter_step s (finish_task r s)"
| respond: "(r, st) \<in> set (in_flight s) \<Longrightarrow> st \<noteq> Proving \<Longrightarrow> limiter_step s (release r s)"

text \<open>With cancellation.\<close>

inductive dropping_step :: "limiter \<Rightarrow> limiter \<Rightarrow> bool" where
  normal: "limiter_step s t \<Longrightarrow> dropping_step s t"
| cancel: "(r, st) \<in> set (in_flight s) \<Longrightarrow> dropping_step s (release r s)"

inductive_cases limiter_stepE: "limiter_step s t"
inductive_cases dropping_stepE: "dropping_step s t"

subsection \<open>Permits are conserved\<close>

text \<open>
  Permits and requests in flight add up to the capacity; ids are not reused, and a request whose
  task has not been spawned has no task.
\<close>

definition permits_ok :: "nat \<Rightarrow> limiter \<Rightarrow> bool" where
  "permits_ok capacity s \<longleftrightarrow>
     available s + length (in_flight s) = capacity \<and> distinct (map fst (in_flight s)) \<and>
     distinct (tasks s) \<and> (\<forall>q \<in> set (in_flight s). snd q = Admitted \<longrightarrow> fst q \<notin> set (tasks s))"

text \<open>Every running task belongs to a request that still holds its permit.\<close>

definition tasks_ok :: "limiter \<Rightarrow> bool" where
  "tasks_ok s \<longleftrightarrow> (\<forall>r \<in> set (tasks s). (r, Proving) \<in> set (in_flight s))"

lemma map_fst_set_stage [simp]: "map fst (in_flight (set_stage r st s)) = map fst (in_flight s)"
  by (simp add: set_stage_def)

lemma set_stage_sel [simp]:
  "available (set_stage r st s) = available s" "tasks (set_stage r st s) = tasks s"
  "length (in_flight (set_stage r st s)) = length (in_flight s)"
  by (simp_all add: set_stage_def)

lemma set_stage_in_flight:
  "q \<in> set (in_flight (set_stage r st s)) \<longleftrightarrow>
     q = (r, st) \<and> r \<in> fst ` set (in_flight s) \<or> fst q \<noteq> r \<and> q \<in> set (in_flight s)"
  by (cases q) (force simp: set_stage_def)

lemma length_without_key:
  "distinct (map fst xs) \<Longrightarrow> (r, x) \<in> set xs \<Longrightarrow> Suc (length (filter (\<lambda>q. fst q \<noteq> r) xs)) = length xs"
proof (induction xs)
  case (Cons y ys)
  show ?case
  proof (cases "fst y = r")
    case True
    then have "r \<notin> fst ` set ys" using Cons.prems(1) by auto
    then have "filter (\<lambda>q. fst q \<noteq> r) ys = ys" by (auto simp: filter_id_conv)
    with True show ?thesis by simp
  next
    case False
    with Cons.prems have "(r, x) \<in> set ys" by auto
    with Cons False show ?thesis by simp
  qed
qed simp

lemma distinct_filter_fst: "distinct (map fst xs) \<Longrightarrow> distinct (map fst (filter P xs))"
  by (induction xs) auto

lemma release_permits:
  "permits_ok capacity s \<Longrightarrow> (r, st) \<in> set (in_flight s) \<Longrightarrow> permits_ok capacity (release r s)"
  using length_without_key [of "in_flight s" r st]
  by (simp add: permits_ok_def release_def distinct_filter_fst)

lemma limiter_step_permits:
  assumes "limiter_step s t" "permits_ok capacity s"
  shows "permits_ok capacity t"
  using assms(1)
proof cases
  case (arrive r)
  with assms(2) show ?thesis
    by (auto simp: try_acquire_def permits_ok_def used_ids_def)
next
  case (spawn r)
  with assms(2) show ?thesis by (fastforce simp: permits_ok_def set_stage_in_flight)
next
  case (finish r)
  with assms(2) show ?thesis by (auto simp: permits_ok_def set_stage_in_flight)
next
  case (respond r st)
  with assms(2) show ?thesis by (simp add: release_permits)
qed

lemma dropping_step_permits:
  "dropping_step s t \<Longrightarrow> permits_ok capacity s \<Longrightarrow> permits_ok capacity t"
  by (erule dropping_stepE) (auto intro: limiter_step_permits release_permits)

lemma new_limiter_ok: "permits_ok capacity (new_limiter capacity)" "tasks_ok (new_limiter capacity)"
  by (simp_all add: permits_ok_def tasks_ok_def new_limiter_def)

subsection \<open>Without cancellation the tasks stay within the budget\<close>

lemma limiter_step_tasks:
  assumes "limiter_step s t" "permits_ok capacity s" "tasks_ok s"
  shows "tasks_ok t"
  using assms(1)
proof cases
  case (arrive r)
  with assms(3) show ?thesis by (auto simp: try_acquire_def tasks_ok_def)
next
  case (spawn r)
  with assms(2,3) show ?thesis
    by (force simp: tasks_ok_def permits_ok_def set_stage_in_flight)
next
  case (finish r)
  with assms(3) show ?thesis by (auto simp: tasks_ok_def set_stage_in_flight)
next
  case (respond r st)
  have "r \<notin> set (tasks s)"
  proof
    assume "r \<in> set (tasks s)"
    then have "(r, Proving) \<in> set (in_flight s)" using assms(3) by (simp add: tasks_ok_def)
    with respond(2,3) assms(2) show False by (auto simp: permits_ok_def dest: eq_key_imp_eq_value)
  qed
  with respond assms(3) show ?thesis by (auto simp: tasks_ok_def release_def)
qed

lemma limiter_reachable_ok:
  "limiter_step\<^sup>*\<^sup>* (new_limiter capacity) s \<Longrightarrow> permits_ok capacity s \<and> tasks_ok s"
  by (induction rule: rtranclp_induct)
    (auto intro: new_limiter_ok limiter_step_permits limiter_step_tasks)

lemma tasks_within_flight:
  assumes "permits_ok capacity s" "tasks_ok s"
  shows "length (tasks s) \<le> capacity"
proof -
  have "set (tasks s) \<subseteq> fst ` set (in_flight s)" using assms(2) by (force simp: tasks_ok_def)
  then have "card (set (tasks s)) \<le> card (fst ` set (in_flight s))" by (intro card_mono) auto
  also have "\<dots> \<le> length (in_flight s)" by (metis card_length list.set_map length_map)
  finally show ?thesis using assms(1) by (simp add: permits_ok_def distinct_card)
qed

end
