(* ===== verification/Http.thy ===== *)
theory Http
  imports Server Footprint Proof_Limit
begin

text \<open>
  From a request to its response: the routes, the middleware of the proving route, the extractors of
  the path parameter and of the JSON body, and the handler. What axum does is a parameter, the record
  \<open>framework\<close>: an extractor delivers the value the handler asks for or the status of its rejection;
  where no handler runs (an unknown path, a method that the route does not take, a preflight request)
  the framework and its layers answer; and \<open>HEAD\<close> is answered without the body. The middleware of the
  proving route is a layer of its method router: a method that the route does not take passes through
  it too, before the 405 fallback.
\<close>

subsection \<open>Dispatch\<close>

text \<open>The cross-origin policy, which the framework is configured with.\<close>

datatype allowed = Only "string list" | Any

record cors_layer =
  allow_origin :: allowed
  allow_methods :: allowed
  allow_headers :: allowed

definition cors :: cors_layer where
  "cors = \<lparr> allow_origin = Any, allow_methods = Any, allow_headers = Any \<rparr>"

text \<open>The body extractors read at most as many bytes as the router's limit says.\<close>

type_synonym target = "http_method \<times> string list"

record 'body framework =
  path_param :: "string \<Rightarrow> nat + string"
  read_leaf :: "nat \<Rightarrow> 'body \<Rightarrow> nat + add_leaf_request"
  read_prove :: "nat \<Rightarrow> 'body \<Rightarrow> nat + prove_request"
  unmatched :: "cors_layer \<Rightarrow> target \<Rightarrow> response"
  preflight :: "cors_layer \<Rightarrow> target \<Rightarrow> response"
  without_body :: "response \<Rightarrow> response"

definition BODY_LIMIT :: nat where
  "BODY_LIMIT = 16 * 1024"

definition leaf_body :: "'body framework \<Rightarrow> 'body \<Rightarrow> nat + string" where
  "leaf_body E b = try_r (read_leaf E BODY_LIMIT b) (\<lambda>req. Inr (alq_commitment req))"

definition prove_body :: "'body framework \<Rightarrow> 'body \<Rightarrow> nat + prove_request" where
  "prove_body E b = read_prove E BODY_LIMIT b"

text \<open>The arguments of the handlers are extracted in order, the path before the body.\<close>

definition extract_call :: "'body framework \<Rightarrow> endpoint \<Rightarrow> 'body \<Rightarrow> 'rng \<Rightarrow> nat + 'rng call" where
  "extract_call E e b rng =
     (case e of
        Health \<Rightarrow> Inr CallHealth
      | Version \<Rightarrow> Inr CallVersion
      | ListIssuers \<Rightarrow> Inr CallListIssuers
      | IssuerInfo p \<Rightarrow> try_r (path_param E p) (\<lambda>name. Inr (CallIssuerInfo name))
      | AddLeaf p \<Rightarrow> try_r (path_param E p) (\<lambda>name. try_r (leaf_body E b) (\<lambda>h. Inr (CallAddLeaf name h)))
      | Publish p \<Rightarrow> try_r (path_param E p) (\<lambda>name. Inr (CallPublish name))
      | GetRoot p \<Rightarrow> try_r (path_param E p) (\<lambda>name. Inr (CallGetRoot name))
      | Prove p \<Rightarrow> try_r (path_param E p) (\<lambda>name. try_r (prove_body E b) (\<lambda>req. Inr (CallProve name req rng))))"

definition rejection :: "nat \<Rightarrow> response" where
  "rejection code = \<lparr> status = code, retry_after = None, body = None \<rparr>"

definition unmetered ::
  "('pk, 'rng, 'z) externs_scheme \<Rightarrow> 'pk keys \<Rightarrow> 'body framework \<Rightarrow> endpoint \<Rightarrow> 'body \<Rightarrow> 'rng \<Rightarrow>
     response option prog" where
  "unmetered X k E e b rng =
     (case extract_call E e b rng of
        Inl code \<Rightarrow> Return (Some (rejection code))
      | Inr c \<Rightarrow> handle X k c)"

text \<open>
  The layer of the proving route, around whatever its method router does with the request. No other
  route has it.
\<close>

definition route_layer :: "limiter \<Rightarrow> endpoint \<Rightarrow> response option prog \<Rightarrow> response option prog" where
  "route_layer s e next_run =
     (case e of Prove p \<Rightarrow> limit_concurrent_proofs s next_run | _ \<Rightarrow> next_run)"

definition serve ::
  "('pk, 'rng, 'z) externs_scheme \<Rightarrow> 'pk keys \<Rightarrow> 'body framework \<Rightarrow> limiter \<Rightarrow> endpoint \<Rightarrow> 'body \<Rightarrow> 'rng \<Rightarrow>
     response option prog" where
  "serve X k E s e b rng = route_layer s e (unmetered X k E e b rng)"

lemma route_layer_cases:
  "route_layer s e p = p \<or> (\<exists>q. e = Prove q) \<and> available s = 0 \<and> route_layer s e p = Return (Some busy_response)"
  by (cases e) (simp_all add: route_layer_def limit_concurrent_proofs_def)

lemma serve_cases:
  "serve X k E s e b rng = unmetered X k E e b rng \<or>
   (\<exists>p. e = Prove p) \<and> available s = 0 \<and> serve X k E s e b rng = Return (Some busy_response)"
  unfolding serve_def by (rule route_layer_cases)

text \<open>
  The whole router. The cross-origin layer is outside the routes and answers every \<open>OPTIONS\<close> request
  itself.
\<close>

definition routed :: "target \<Rightarrow> routing" where
  "routed tg = (if fst tg = Options then Preflight else route (fst tg) (snd tg))"

definition head_only :: "'body framework \<Rightarrow> target \<Rightarrow> response \<Rightarrow> response" where
  "head_only E tg resp = (if fst tg = Head then without_body E resp else resp)"

definition respond_to ::
  "('pk, 'rng, 'z) externs_scheme \<Rightarrow> 'pk keys \<Rightarrow> 'body framework \<Rightarrow> limiter \<Rightarrow> target \<Rightarrow> 'body \<Rightarrow> 'rng \<Rightarrow>
     response option prog" where
  "respond_to X k E s tg b rng =
     (case routed tg of
        Handler e \<Rightarrow> bind (serve X k E s e b rng) (\<lambda>r. Return (map_option (head_only E tg) r))
      | MethodNotAllowed e \<Rightarrow>
          bind (route_layer s e (Return (Some (unmatched E cors tg)))) (\<lambda>r. Return (map_option (head_only E tg) r))
      | NoRoute \<Rightarrow> Return (Some (unmatched E cors tg))
      | Preflight \<Rightarrow> Return (Some (preflight E cors tg)))"

text \<open>The requests that pass through the layer.\<close>

definition metered :: "target \<Rightarrow> bool" where
  "metered tg \<longleftrightarrow>
     (case routed tg of
        Handler e \<Rightarrow> (case e of Prove p \<Rightarrow> True | _ \<Rightarrow> False)
      | MethodNotAllowed e \<Rightarrow> (case e of Prove p \<Rightarrow> True | _ \<Rightarrow> False)
      | _ \<Rightarrow> False)"

lemma metered_iff:
  "metered tg \<longleftrightarrow> (\<exists>p. routed tg = Handler (Prove p) \<or> routed tg = MethodNotAllowed (Prove p))"
  by (auto simp: metered_def split: routing.splits endpoint.splits)

text \<open>The routes that write are \<open>POST\<close> routes.\<close>

lemma route_post:
  assumes "routed tg = Handler e"
  shows "fst tg = Post \<or> (case e of AddLeaf p \<Rightarrow> False | Publish p \<Rightarrow> False | Prove p \<Rightarrow> False | _ \<Rightarrow> True)"
  using assms
  by (auto simp: routed_def route_def on_get_def on_post_def split: list.splits if_splits)

lemma head_only_id [simp]: "fst tg \<noteq> Head \<Longrightarrow> head_only E tg = (\<lambda>r. r)"
  by (simp add: head_only_def fun_eq_iff)

lemma respond_to_serve:
  assumes "routed tg = Handler e" and "case e of AddLeaf p \<Rightarrow> True | Publish p \<Rightarrow> True | Prove p \<Rightarrow> True | _ \<Rightarrow> False"
  shows "respond_to X k E s tg b rng = serve X k E s e b rng"
proof -
  have "fst tg = Post" using route_post [OF assms(1)] assms(2) by (auto split: endpoint.splits)
  then show ?thesis by (simp add: respond_to_def assms(1) option.map_ident bind_Return)
qed

abbreviation post :: "string \<Rightarrow> string \<Rightarrow> target" where
  "post p op \<equiv> (Post, [''issuers'', p, op])"

lemma routed_post [simp]:
  "p \<noteq> [] \<Longrightarrow> routed (post p ''leaves'') = Handler (AddLeaf p)"
  "p \<noteq> [] \<Longrightarrow> routed (post p ''publish'') = Handler (Publish p)"
  "p \<noteq> [] \<Longrightarrow> routed (post p ''prove'') = Handler (Prove p)"
  by (simp_all add: routed_def route_def on_post_def)

subsection \<open>Every request is answered\<close>

context hex_codec
begin

lemma serve_answered:
  assumes ok: "conn_ok X c" and run: "run_on conn_exec (serve X k E s e b rng) c = (r, c')"
  shows "\<exists>resp. r = Some resp \<and> conn_ok X c' \<and>
    (resp = busy_response \<and> (\<exists>p. e = Prove p) \<and> available s = 0 \<or>
     (case extract_call E e b rng of
        Inl code \<Rightarrow> resp = rejection code
      | Inr call \<Rightarrow> status resp \<in> {200, 400, 404, 409} \<union>
          (if conn_calm c \<and> \<not> is_proving call then {} else {500, 503})))"
proof (rule disjE [OF serve_cases [of X k E s e b rng]])
  assume "serve X k E s e b rng = unmetered X k E e b rng"
  with run have run': "run_on conn_exec (unmetered X k E e b rng) c = (r, c')" by simp
  show ?thesis
  proof (cases "extract_call E e b rng")
    case (Inl code)
    with run' ok show ?thesis by (auto simp: unmetered_def)
  next
    case (Inr call)
    with run' have "run_on conn_exec (handle X k call) c = (r, c')" by (simp add: unmetered_def)
    from handle_answered [OF ok this] Inr show ?thesis by auto
  qed
next
  assume "(\<exists>p. e = Prove p) \<and> available s = 0 \<and> serve X k E s e b rng = Return (Some busy_response)"
  with run ok show ?thesis by auto
qed

end

subsection \<open>What a request can write\<close>

lemma issues_finish: "issues P p \<Longrightarrow> issues P (finish to_json p)"
  unfolding finish_def by (rule issues_bind) simp_all

text \<open>A request that is no \<open>POST\<close> reads only.\<close>

lemma issues_read_handle:
  assumes "extract_call E e b rng = Inr c"
    and "case e of AddLeaf p \<Rightarrow> False | Publish p \<Rightarrow> False | Prove p \<Rightarrow> False | _ \<Rightarrow> True"
  shows "issues is_read (handle X k c)"
  using assms
  by (cases e)
    (auto simp: extract_call_def handle_def result_iffs intro!: issues_bind issues_finish issues_health
      issues_list_issuers issues_issuer_info issues_get_root)

lemma serve_reads:
  assumes "case e of AddLeaf p \<Rightarrow> False | Publish p \<Rightarrow> False | Prove p \<Rightarrow> False | _ \<Rightarrow> True"
    and "run_on conn_exec (serve X k E s e b rng) c = (r, c')"
  shows "db c' = db c"
proof -
  have "issues is_read (serve X k E s e b rng)"
    using issues_read_handle [of E e b rng _ X k] assms(1)
    by (cases e) (auto simp: serve_def route_layer_def unmetered_def split: sum.splits)
  then show ?thesis using reading_program [OF _ assms(2)] by blast
qed

lemma serve_adds_leaf:
  assumes "run_on conn_exec (serve X k E s (AddLeaf p) b rng) c = (r, c')" and "tx c = None"
  shows "db c' = db c \<or> (\<exists>name. path_param E p = Inr name \<and> only_leaves_of name (db c) None (db c'))"
proof (cases "path_param E p")
  case (Inl code)
  with assms show ?thesis by (simp add: serve_def route_layer_def unmetered_def extract_call_def)
next
  case (Inr name)
  have "issues (adds_leaf name) (serve X k E s (AddLeaf p) b rng)"
    using Inr issues_finish [OF issues_issuer_add_leaf, of name add_leaf_json X]
    by (auto simp: serve_def route_layer_def unmetered_def extract_call_def handle_def result_iffs split: sum.splits)
  then have "only_leaves_of name (db c) (tx c') (db c')"
  proof (rule issues_keeps [OF _ assms(1)])
    show "only_leaves_of name (db c) (tx c) (db c)" by (simp add: only_leaves_of_def assms(2))
  qed (rule adds_leaf_keeps)
  with Inr show ?thesis by (auto simp: only_leaves_of_def)
qed

lemma serve_publishes:
  assumes "run_on conn_exec (serve X k E s (Publish p) b rng) c = (r, c')"
  shows "db c' = db c \<or> (\<exists>name. path_param E p = Inr name \<and> only_root_of name (db c) None (db c'))"
proof (cases "path_param E p")
  case (Inl code)
  with assms show ?thesis by (simp add: serve_def route_layer_def unmetered_def extract_call_def)
next
  case (Inr name)
  have "issues (publishes name) (serve X k E s (Publish p) b rng)"
    using Inr issues_finish [OF issues_publish, of name root_json X]
    by (simp add: serve_def route_layer_def unmetered_def extract_call_def handle_def)
  then have "only_root_of name (db c) (tx c') (db c')"
  proof (rule issues_keeps [OF _ assms])
    show "only_root_of name (db c) (tx c) (db c)" by (simp add: only_root_of_def)
  qed (rule publishes_keeps)
  with Inr show ?thesis by (auto simp: only_root_of_def)
qed

lemma serve_proves:
  assumes "run_on conn_exec (serve X k E s (Prove p) b rng) c = (r, c')"
  shows "db c' = db c \<or> (\<exists>name req secret. path_param E p = Inr name \<and> prove_body E b = Inr req \<and>
    parse_fr_hex X (req_secret req) = Inr secret \<and>
    only_nullifier name (to_hex X (nullifier secret)) (db c) None (db c'))"
proof (cases "serve X k E s (Prove p) b rng = Return (Some busy_response)")
  case True
  with assms show ?thesis by simp
next
  case False
  then have run: "run_on conn_exec (unmetered X k E (Prove p) b rng) c = (r, c')"
    using serve_cases [of X k E s "Prove p" b rng] assms by auto
  show ?thesis
  proof (cases "path_param E p")
    case (Inl code)
    with run show ?thesis by (simp add: unmetered_def extract_call_def)
  next
    case (Inr name)
    note name = this
    show ?thesis
    proof (cases "prove_body E b")
      case (Inl code)
      with run name show ?thesis by (simp add: unmetered_def extract_call_def)
    next
      case (Inr req)
      with run name have run: "run_on conn_exec (finish prove_json (holder_prove X k rng name req)) c = (r, c')"
        by (simp add: unmetered_def extract_call_def handle_def)
      show ?thesis
      proof (cases "parse_fr_hex X (req_secret req)")
        case (Inl err)
        with run show ?thesis by (simp add: run_finish holder_prove_def run_value_or)
      next
        case (Inr secret)
        let ?h = "to_hex X (nullifier secret)"
        have "only_nullifier name ?h (db c) (tx c') (db c')"
        proof (rule issues_keeps [OF issues_finish [OF issues_holder_prove [OF Inr]] run])
          show "only_nullifier name ?h (db c) (tx c) (db c)" by (auto simp: only_nullifier_def)
        qed (rule proves_keeps)
        with Inr name \<open>prove_body E b = Inr req\<close> show ?thesis by (auto simp: only_nullifier_def)
      qed
    qed
  qed
qed

text \<open>Through the router, where the proving route answers \<open>POST\<close> only.\<close>

context hex_codec
begin

lemma respond_to_answered:
  assumes ok: "conn_ok X c" and E: "\<And>r. status (without_body E r) = status r"
    and run: "run_on conn_exec (respond_to X k E s tg b rng) c = (r, c')"
  shows "\<exists>resp. r = Some resp \<and> conn_ok X c' \<and>
    (case routed tg of
       Handler e \<Rightarrow>
         resp = busy_response \<and> (\<exists>p. e = Prove p) \<and> available s = 0 \<or>
         (case extract_call E e b rng of
            Inl code \<Rightarrow> status resp = code
          | Inr call \<Rightarrow> status resp \<in> {200, 400, 404, 409} \<union>
              (if conn_calm c \<and> \<not> is_proving call then {} else {500, 503}))
     | MethodNotAllowed e \<Rightarrow>
         resp = head_only E tg (unmatched E cors tg) \<or>
         resp = head_only E tg busy_response \<and> (\<exists>p. e = Prove p) \<and> available s = 0
     | NoRoute \<Rightarrow> resp = unmatched E cors tg
     | Preflight \<Rightarrow> resp = preflight E cors tg)"
proof (cases "routed tg")
  case (Handler e)
  obtain r1 where r1: "run_on conn_exec (serve X k E s e b rng) c = (r1, c')" "r = map_option (head_only E tg) r1"
    using run Handler by (auto simp: respond_to_def run_bind split: prod.splits)
  from serve_answered [OF ok r1(1)] obtain resp where resp: "r1 = Some resp" "conn_ok X c'"
      "resp = busy_response \<and> (\<exists>p. e = Prove p) \<and> available s = 0 \<or>
       (case extract_call E e b rng of
          Inl code \<Rightarrow> resp = rejection code
        | Inr call \<Rightarrow> status resp \<in> {200, 400, 404, 409} \<union>
            (if conn_calm c \<and> \<not> is_proving call then {} else {500, 503}))"
    by blast
  have "fst tg = Head \<Longrightarrow> e \<noteq> Prove p" for p
    using route_post [OF Handler] by auto
  with resp r1(2) E Handler show ?thesis
    by (cases "fst tg = Head") (auto simp: head_only_def rejection_def split: sum.splits)
next
  case (MethodNotAllowed e)
  with route_layer_cases [of s e "Return (Some (unmatched E cors tg))"] run ok show ?thesis
    by (auto simp: respond_to_def)
qed (use run ok in \<open>auto simp: respond_to_def\<close>)

end

end
