(* ===== verification/Outcomes.thy ===== *)
theory Outcomes
  imports Http
begin

text \<open>
  What a request can be answered with. \<open>returns A R p\<close> says that every result of the program \<open>p\<close>
  satisfies \<open>R\<close> as long as the replies satisfy \<open>A\<close>; it needs no assumption on the other sessions, so
  it holds under any interleaving. \<open>replies F D\<close> are the replies of a database that is at each statement
  in one of the states \<open>D\<close>, with the faults that \<open>F\<close> allows.
\<close>

named_theorems outcome

primrec returns :: "(request \<Rightarrow> reply \<Rightarrow> bool) \<Rightarrow> ('a \<Rightarrow> bool) \<Rightarrow> 'a prog \<Rightarrow> bool" where
  "returns A R (Return a) \<longleftrightarrow> R a"
| "returns A R (Call rq k) \<longleftrightarrow> (\<forall>r. A rq r \<longrightarrow> returns A R (k r))"

lemma returns_any: "(\<And>a. R a) \<Longrightarrow> returns A R p"
  by (induction p) auto

lemma returns_mono: "returns A R p \<Longrightarrow> (\<And>a. R a \<Longrightarrow> S a) \<Longrightarrow> returns A S p"
  by (induction p) auto

lemma returns_bind: "returns A (\<lambda>a. returns A R (g a)) p \<Longrightarrow> returns A R (bind p g)"
  by (induction p) auto

lemma returns_seq: "(\<And>a. returns A R (g a)) \<Longrightarrow> returns A R (bind p g)"
  by (rule returns_bind) (rule returns_any)

lemma returns_value_or [outcome]:
  "(\<And>e. R (Inl (Failed e))) \<Longrightarrow> (\<And>a. r = Inr a \<Longrightarrow> returns A R (g a)) \<Longrightarrow> returns A R (value_or r g)"
  by (simp add: value_or_def split: sum.splits)

text \<open>The store's answer is known to satisfy \<open>T\<close>.\<close>

lemma returns_store_call_of:
  assumes "returns A (\<lambda>r. \<forall>a. r = Inr a \<longrightarrow> T a) p" "\<And>e. R (Inl (Failed e))" "\<And>a. T a \<Longrightarrow> returns A R (g a)"
  shows "returns A R (store_call p g)"
  unfolding store_call_def bind_ok_def prog_map_err_def bind_assoc
proof (rule returns_bind, rule returns_mono [OF assms(1)])
  fix r :: "store_error + _"
  assume "\<forall>a. r = Inr a \<longrightarrow> T a"
  then show "returns A R (bind (Return (map_err (\<lambda>e. Failed (api_error_from_store e)) r))
      (\<lambda>r. case r of Inl e \<Rightarrow> Return (Inl e) | Inr a \<Rightarrow> g a))"
    by (cases r) (simp_all add: assms)
qed

lemma returns_store_call [outcome]:
  "(\<And>e. R (Inl (Failed e))) \<Longrightarrow> (\<And>a. returns A R (g a)) \<Longrightarrow> returns A R (store_call p g)"
  by (rule returns_store_call_of [where T = "\<lambda>_. True"]) (auto intro: returns_any)

lemma returns_fail [outcome]: "R (Inl (Failed e)) \<Longrightarrow> returns A R (fail e)"
  by (simp add: fail_def)

subsection \<open>What the database replies\<close>

definition replies :: "(request \<Rightarrow> fault \<Rightarrow> bool) \<Rightarrow> database set \<Rightarrow> request \<Rightarrow> reply \<Rightarrow> bool" where
  "replies F D rq r \<longleftrightarrow> (\<exists>f t d. F rq f \<and> d \<in> D \<and> r = fst (exec f rq t d)) \<or> rq = Blocking"

lemma replies_exec: "exec f rq t d = (r, t', d') \<Longrightarrow> F rq f \<Longrightarrow> d \<in> D \<Longrightarrow> replies F D rq r"
  unfolding replies_def by (metis fst_conv)

lemma returns_query:
  assumes "\<And>d res d'. d \<in> D \<Longrightarrow> sql_eval s d = Some (res, d') \<Longrightarrow> R (h res)" and "\<And>t. R (Inl (Db t))"
  shows "returns (replies F D) R (query s h)"
proof -
  have "R (h res)" if r: "replies F D (Pool s) (Result res)" for res
  proof -
    obtain f t d where d: "d \<in> D" "Result res = fst (exec f (Pool s) t d)" using r unfolding replies_def by blast
    then obtain d' where "sql_eval s d = Some (res, d')"
      by (cases f) (auto simp: exec_def split: option.splits)
    with assms(1) d(1) show ?thesis by blast
  qed
  with assms(2) show ?thesis by (auto simp: query_def split: reply.splits)
qed

text \<open>The leaves and the published root that are read were there in one of the states.\<close>

lemma returns_stored_leaves:
  assumes "\<And>d. d \<in> D \<Longrightarrow> store_ok X d"
  shows "returns (replies F D) (\<lambda>r. \<forall>ls. r = Inr ls \<longrightarrow> (\<exists>d \<in> D. ls = abs_leaves X d i)) (stored_leaves X i)"
  unfolding stored_leaves_def
  by (rule returns_query)
    (auto simp: sql_eval_def strings_def select_leaves [OF assms] collect_rows [OF assms])

lemma returns_published_root:
  assumes "\<And>d. d \<in> D \<Longrightarrow> store_ok X d"
  shows "returns (replies F D) (\<lambda>r. \<forall>q. r = Inr q \<longrightarrow> (\<exists>d \<in> D. q = abs_published X d i)) (published_root X i)"
  unfolding published_root_def
  by (rule returns_query) (auto simp: sql_eval_def published_row [OF assms])

subsection \<open>Handlers do not panic\<close>

text \<open>An error of the handler, or a value that satisfies \<open>R\<close>.\<close>

fun sound :: "('a \<Rightarrow> bool) \<Rightarrow> api_error failure + 'a \<Rightarrow> bool" where
  "sound R (Inl (Failed e)) = True"
| "sound R (Inl Panicked) = False"
| "sound R (Inr a) = R a"

text \<open>The response of a sound result.\<close>

definition well_answered :: "('a \<Rightarrow> json) \<Rightarrow> ('a \<Rightarrow> bool) \<Rightarrow> response option \<Rightarrow> bool" where
  "well_answered to_json R a \<longleftrightarrow>
     (\<exists>err. a = Some (into_response err)) \<or> (\<exists>x. R x \<and> a = Some (json_response 200 (to_json x)))"

lemma returns_finish: "returns A (sound R) p \<Longrightarrow> returns A (well_answered to_json R) (finish to_json p)"
  unfolding finish_def
  by (rule returns_bind, erule returns_mono)
    (auto simp: respond_def well_answered_def elim!: sound.elims)

lemma from_leaves_Inr: "from_leaves ls = Inr t \<Longrightarrow> t = tree_of ls \<and> length ls \<le> CAPACITY"
  by (auto simp: from_leaves_def tree_of_def split: if_splits)

lemma sound_list_issuers: "returns A (sound (\<lambda>_. True)) list_issuers"
  unfolding list_issuers_def by (intro outcome) simp_all

lemma sound_issuer_info: "returns A (sound (\<lambda>_. True)) (issuer_info X i)"
  unfolding issuer_info_def by (intro outcome) (auto intro!: outcome)

lemma sound_get_root: "returns A (sound (\<lambda>_. True)) (get_root X i)"
  unfolding get_root_def by (intro outcome) (auto intro!: outcome split: option.splits)

lemma sound_publish: "returns A (sound (\<lambda>_. True)) (publish X i)"
  unfolding publish_def
  by (intro outcome) (auto intro!: outcome dest!: map_err_Inr_iff [THEN iffD1] from_leaves_Inr split: option.splits)

lemma sound_issuer_add_leaf: "returns A (sound (\<lambda>_. True)) (issuer_add_leaf X i h)"
  unfolding issuer_add_leaf_def by (intro outcome) auto

subsection \<open>Every proof handed out verifies\<close>

text \<open>
  The answer carries a proof that verifies for the request's secret and address and for a root that
  was published in one of the states, the root of the leaves that the issuer had in one of the states
  and that include the secret's commitment.
\<close>

definition proof_for ::
  "('pk, 'rng, 'z) externs_scheme \<Rightarrow> 'pk keys \<Rightarrow> database set \<Rightarrow> string \<Rightarrow> prove_request \<Rightarrow> prove_response \<Rightarrow> bool" where
  "proof_for X k D name req resp \<longleftrightarrow>
     (\<exists>secret pf d1 d2. parse_fr_hex X (req_secret req) = Inr secret \<and> d1 \<in> D \<and> d2 \<in> D \<and>
       leaf_commitment secret \<in> set (abs_leaves X d1 name) \<and>
       abs_published X d2 name = Some (root_of (abs_leaves X d1 name)) \<and>
       groth_verify X (vk k) [root_of (abs_leaves X d1 name), nullifier secret,
         address_field X (req_holder_address req)] pf = Inr True \<and>
       pr_proof resp = \<lparr> pj_a = hex_encode X (g1_bytes (proof_a pf)), pj_b = hex_encode X (g2_bytes (proof_b pf)),
         pj_c = hex_encode X (g1_bytes (proof_c pf)) \<rparr> \<and>
       pr_root resp = hex_encode X (fr_be (root_of (abs_leaves X d1 name))) \<and>
       pr_nullifier resp = hex_encode X (fr_be (nullifier secret)))"

lemma blocking_result_Inr: "blocking_result X r = Inr a \<Longrightarrow> r = Inr a"
  by (auto simp: blocking_result_def split: sum.splits failure.splits)

lemma proof_for_reply:
  assumes d: "d1 \<in> D" "store_ok X d1" "d2 \<in> D" "abs_published X d2 i = Some (root_of (abs_leaves X d1 i))"
    and secret: "parse_fr_hex X (req_secret req) = Inr secret"
    and m: "blocking_result X (fst (prove X k (tree_of (abs_leaves X d1 i)) secret (req_holder_address req) rng)) = Inr m"
  shows "proof_for X k D i req (prove_reply X m (nullifier secret))"
proof -
  let ?ls = "abs_leaves X d1 i"
  obtain r rng' where r: "prove X k (tree_of ?ls) secret (req_holder_address req) rng = (r, rng')"
    by (rule prod.exhaust)
  with m have "r = Inr m" by (auto dest: blocking_result_Inr)
  moreover have len: "length (leaves (tree_of ?ls)) \<le> CAPACITY" using abs_leaves_bound [OF d(2)] by simp
  ultimately obtain pf where mem: "leaf_commitment secret \<in> set ?ls"
    and pf: "groth_verify X (vk k) [root_of ?ls, nullifier secret, address_field X (req_holder_address req)] pf = Inr True"
      "m = \<lparr> mp_proof = encoded_proof_from_arkworks pf, mp_root = fr_be (root_of ?ls),
         mp_nullifier = fr_be (nullifier secret) \<rparr>"
    using prove_result_cases [OF len r] by (auto simp: root_of_def split: if_splits)
  from d secret mem pf(1) show ?thesis
    unfolding proof_for_def
    by (intro exI [of _ secret] exI [of _ pf] exI [of _ d1] exI [of _ d2])
      (simp add: prove_reply_def encoded_proof_from_arkworks_def pf(2))
qed

lemma sound_prove_published:
  assumes "d1 \<in> D" "store_ok X d1" "d2 \<in> D" "parse_fr_hex X (req_secret req) = Inr secret"
  shows "returns A (sound (proof_for X k D i req))
    (prove_published X k rng i (req_holder_address req) secret (tree_of (abs_leaves X d1 i)) (abs_published X d2 i))"
  unfolding prove_published_def spawn_blocking_def
  by (auto simp: Let_def intro!: outcome returns_seq proof_for_reply [OF assms(1-3) _ assms(4)] split: option.splits)

lemma sound_holder_prove:
  assumes "\<And>d. d \<in> D \<Longrightarrow> store_ok X d"
  shows "returns (replies F D) (sound (proof_for X k D i req)) (holder_prove X k rng i req)"
  unfolding holder_prove_def
proof (intro returns_value_or, simp)
  fix secret assume secret: "parse_fr_hex X (req_secret req) = Inr secret"
  show "returns (replies F D) (sound (proof_for X k D i req)) (store_call (stored_leaves X i) (\<lambda>ls.
      if ls = [] then fail (NotFound ''no such issuer, or empty tree'')
      else value_or (map_err (\<lambda>_. Conflict ''the tree is full'') (from_leaves ls)) (\<lambda>tree.
        store_call (published_root X i) (prove_published X k rng i (req_holder_address req) secret tree))))"
  proof (rule returns_store_call_of [OF returns_stored_leaves [OF assms]], assumption, simp)
    fix ls assume "\<exists>d \<in> D. ls = abs_leaves X d i"
    then obtain d1 where d1: "d1 \<in> D" "ls = abs_leaves X d1 i" by blast
    have "returns (replies F D) (sound (proof_for X k D i req))
        (store_call (published_root X i) (prove_published X k rng i (req_holder_address req) secret (tree_of ls)))"
      by (rule returns_store_call_of [OF returns_published_root [OF assms]], assumption, simp)
        (use sound_prove_published [OF d1(1) assms [OF d1(1)] _ secret] d1(2) in blast)
    then show "returns (replies F D) (sound (proof_for X k D i req))
      (if ls = [] then fail (NotFound ''no such issuer, or empty tree'')
       else value_or (map_err (\<lambda>_. Conflict ''the tree is full'') (from_leaves ls)) (\<lambda>tree.
         store_call (published_root X i) (prove_published X k rng i (req_holder_address req) secret tree)))"
      by (auto intro!: outcome dest!: map_err_Inr_iff [THEN iffD1] from_leaves_Inr)
  qed
qed

subsection \<open>What a response can be\<close>

text \<open>
  The rejection of an extractor (it does not depend on the randomness, here \<open>()\<close>), an error of the
  handler, the refusal of the limiter, a failing health probe, or a success; a success of the proving
  route carries a proof for the request.
\<close>

definition proper_answer ::
  "('pk, 'rng, 'z) externs_scheme \<Rightarrow> 'pk keys \<Rightarrow> database set \<Rightarrow> 'body framework \<Rightarrow> endpoint \<Rightarrow> 'body \<Rightarrow>
     response option \<Rightarrow> bool" where
  "proper_answer X k D E e b a \<longleftrightarrow>
     (\<exists>resp. a = Some resp \<and>
       (resp = busy_response \<and> (\<exists>p. e = Prove p) \<or>
        (case extract_call E e b () of
           Inl code \<Rightarrow> resp = rejection code
         | Inr call \<Rightarrow>
             (\<exists>err. resp = into_response err) \<or>
             status resp = 503 \<and> e = Health \<or>
             status resp = 200 \<and> body resp \<noteq> None \<and>
               (\<forall>p. e = Prove p \<longrightarrow> (\<exists>name req x. path_param E p = Inr name \<and> prove_body E b = Inr req \<and>
                  proof_for X k D name req x \<and> resp = json_response 200 (prove_json x))))))"

lemma into_response_status: "status (into_response err) \<in> {400, 404, 409, 500}"
  by (simp add: into_response_def json_response_def split: api_error.splits)

lemma into_response_not_ok: "into_response err \<noteq> json_response 200 j"
  using into_response_status [of err] by (auto simp: json_response_def)

lemma proper_answer_200:
  assumes "proper_answer X k D E (Prove p) b (Some (json_response 200 j))"
  shows "\<exists>name req x. path_param E p = Inr name \<and> prove_body E b = Inr req \<and> proof_for X k D name req x \<and>
    j = prove_json x"
proof -
  have "json_response 200 j \<noteq> into_response err" for err
    using into_response_not_ok [of err j] by metis
  with assms show ?thesis
    by (auto simp: proper_answer_def split: sum.splits)
      (auto simp: json_response_def rejection_def busy_response_def)
qed

lemma extract_call_unit:
  "extract_call E e b rng = Inl code \<Longrightarrow> extract_call E e b () = Inl code"
  by (cases e) (auto simp: extract_call_def result_iffs)

lemma well_answered_proper:
  "well_answered to_json R a \<Longrightarrow> \<exists>c. extract_call E e b () = Inr c \<Longrightarrow> (\<And>p. e \<noteq> Prove p) \<Longrightarrow> proper_answer X k D E e b a"
  by (auto simp: well_answered_def proper_answer_def json_response_def)

lemma well_answered_prove:
  "well_answered prove_json (proof_for X k D name req) a \<Longrightarrow> path_param E p = Inr name \<Longrightarrow>
     prove_body E b = Inr req \<Longrightarrow> proper_answer X k D E (Prove p) b a"
  by (auto simp: well_answered_def proper_answer_def json_response_def extract_call_def)

lemma proper_health: "returns A (proper_answer X k D E Health b) (bind health (\<lambda>r. Return (Some r)))"
  unfolding health_def bind_assoc
  by (rule returns_seq) (simp add: proper_answer_def json_response_def extract_call_def split: sum.splits)

lemmas finish_proper = returns_finish [THEN returns_mono, OF _ well_answered_proper]

lemma unmetered_proper:
  assumes "\<And>d. d \<in> D \<Longrightarrow> store_ok X d"
  shows "returns (replies F D) (proper_answer X k D E e b) (unmetered X k E e b rng)"
proof (cases "extract_call E e b rng")
  case (Inl code)
  with extract_call_unit [OF Inl] show ?thesis by (simp add: unmetered_def proper_answer_def)
next
  case (Inr c)
  show ?thesis
  proof (cases e)
    case Health
    with Inr show ?thesis using proper_health by (simp add: unmetered_def extract_call_def handle_def)
  next
    case Version
    with Inr show ?thesis
      by (auto simp: unmetered_def extract_call_def handle_def proper_answer_def json_response_def)
  next
    case (Prove p)
    with Inr obtain name req where req: "path_param E p = Inr name" "prove_body E b = Inr req"
        "c = CallProve name req rng"
      by (auto simp: extract_call_def result_iffs)
    have "returns (replies F D) (proper_answer X k D E e b) (finish prove_json (holder_prove X k rng name req))"
      unfolding Prove
      by (rule returns_mono [OF returns_finish [OF sound_holder_prove [OF assms]]
            well_answered_prove [where E = E, OF _ req(1,2)]])
    with Inr req show ?thesis by (simp add: unmetered_def handle_def)
  qed (use Inr in \<open>auto simp: unmetered_def extract_call_def handle_def result_iffs
      intro!: finish_proper sound_list_issuers sound_issuer_info sound_issuer_add_leaf sound_publish sound_get_root\<close>)
qed

lemma serve_proper:
  "(\<And>d. d \<in> D \<Longrightarrow> store_ok X d) \<Longrightarrow>
     returns (replies F D) (proper_answer X k D E e b) (serve X k E s e b rng)"
  using serve_cases [of X k E s e b rng] unmetered_proper [of D X F k E e b rng]
  by (auto simp: proper_answer_def)

text \<open>The same for the whole router.\<close>

definition proper_response ::
  "('pk, 'rng, 'z) externs_scheme \<Rightarrow> 'pk keys \<Rightarrow> database set \<Rightarrow> 'body framework \<Rightarrow> target \<Rightarrow> 'body \<Rightarrow>
     response option \<Rightarrow> bool" where
  "proper_response X k D E tg b a \<longleftrightarrow>
     (case routed tg of
        Handler e \<Rightarrow> (\<exists>r. proper_answer X k D E e b r \<and> a = map_option (head_only E tg) r)
      | MethodNotAllowed e \<Rightarrow>
          a = Some (head_only E tg (unmatched E cors tg)) \<or> metered tg \<and> a = Some (head_only E tg busy_response)
      | NoRoute \<Rightarrow> a = Some (unmatched E cors tg)
      | Preflight \<Rightarrow> a = Some (preflight E cors tg))"

lemma respond_to_proper:
  assumes "\<And>d. d \<in> D \<Longrightarrow> store_ok X d"
  shows "returns (replies F D) (proper_response X k D E tg b) (respond_to X k E s tg b rng)"
proof (cases "routed tg")
  case (Handler e)
  have "returns (replies F D) (proper_answer X k D E e b) (serve X k E s e b rng)" by (rule serve_proper [OF assms])
  then have "returns (replies F D) (\<lambda>r. returns (replies F D) (proper_response X k D E tg b)
      (Return (map_option (head_only E tg) r))) (serve X k E s e b rng)"
    by (rule returns_mono) (auto simp: proper_response_def Handler)
  then show ?thesis by (simp add: respond_to_def Handler returns_bind)
next
  case (MethodNotAllowed e)
  with route_layer_cases [of s e "Return (Some (unmatched E cors tg))"] show ?thesis
    by (auto simp: respond_to_def proper_response_def metered_iff)
qed (simp_all add: respond_to_def proper_response_def)

lemma proper_response_prove:
  assumes "proper_response X k D E tg b a" and "routed tg = Handler (Prove p)"
  shows "proper_answer X k D E (Prove p) b a"
  using assms route_post [OF assms(2)] by (simp add: proper_response_def option.map_ident)

subsection \<open>What an acknowledged leaf stands for\<close>

text \<open>
  When a request to add a leaf is answered with a position and a count, the session has committed the
  row at that position.
\<close>

definition leaf_request :: "('pk, 'rng, 'z) externs_scheme \<Rightarrow> 'body framework \<Rightarrow> target \<Rightarrow> 'body \<Rightarrow> (string \<times> fr) option" where
  "leaf_request X E tg b =
     (case routed tg of
        Handler (AddLeaf p) \<Rightarrow>
          (case (path_param E p, leaf_body E b) of
             (Inr name, Inr h) \<Rightarrow> (case parse_fr_hex X h of Inr f \<Rightarrow> Some (name, f) | Inl _ \<Rightarrow> None)
           | _ \<Rightarrow> None)
      | _ \<Rightarrow> None)"

definition leaf_answer :: "nat \<Rightarrow> nat \<Rightarrow> response" where
  "leaf_answer pos count = json_response 200 (add_leaf_json \<lparr> alr_position = pos, alr_count = count \<rparr>)"

definition leaf_acknowledged ::
  "('pk, 'rng, 'z) externs_scheme \<Rightarrow> 'body framework \<Rightarrow> target \<Rightarrow> 'body \<Rightarrow> tx_view \<Rightarrow> response option \<Rightarrow> bool" where
  "leaf_acknowledged X E tg b v a \<longleftrightarrow>
     (\<forall>name f pos count. leaf_request X E tg b = Some (name, f) \<longrightarrow> a = Some (leaf_answer pos count) \<longrightarrow>
       leaf_added X name f v (Inr (pos, count)))"

lemma leaf_answer_inject: "leaf_answer p c = leaf_answer p' c' \<longleftrightarrow> p = p' \<and> c = c'"
  by (simp add: leaf_answer_def json_response_def add_leaf_json_def)

lemma leaf_answer_not_error: "into_response err \<noteq> leaf_answer p c" "rejection code \<noteq> leaf_answer p c"
  using into_response_not_ok [of err] by (auto simp: leaf_answer_def json_response_def rejection_def)

context hex_codec
begin

lemma disciplined_adding_leaf:
  assumes "parse_fr_hex X h = Inr f"
  shows "disciplined X (\<lambda>v a. \<forall>pos count. a = Some (leaf_answer pos count) \<longrightarrow> leaf_added X i f v (Inr (pos, count)))
    (finish add_leaf_json (issuer_add_leaf X i h)) Idle"
  unfolding finish_def issuer_add_leaf_def store_call_def bind_ok_def prog_map_err_def bind_assoc assms value_or_def
    sum.case
proof (rule disciplined_bind, rule disciplined_mono [OF disciplined_add_leaf], goal_cases)
  case (2 v a)
  then show ?case
    by (cases a)
      (auto simp: respond_def leaf_answer_not_error leaf_answer_inject leaf_answer_def [symmetric])
qed simp

lemma respond_disciplined: "disciplined X (leaf_acknowledged X E tg b) (respond_to X k E s tg b rng) Idle"
proof (cases "leaf_request X E tg b")
  case None
  have "disciplined X any_result (serve X k E s e b rng) Idle" for e
    using serve_cases [of X k E s e b rng] by (auto simp: unmetered_def disciplined_handle split: sum.splits)
  moreover have "disciplined X any_result (route_layer s e (Return a)) Idle" for e and a :: "response option"
    using route_layer_cases [of s e "Return a"] by auto
  ultimately have "disciplined X any_result (respond_to X k E s tg b rng) Idle"
    by (cases "routed tg") (auto simp: respond_to_def intro: disciplined_seq)
  then show ?thesis by (rule disciplined_mono) (simp add: leaf_acknowledged_def None)
next
  case (Some nf)
  then obtain p name h f where 1: "routed tg = Handler (AddLeaf p)" "path_param E p = Inr name" "leaf_body E b = Inr h"
      "parse_fr_hex X h = Inr f" "nf = (name, f)"
    by (auto simp: leaf_request_def split: routing.splits endpoint.splits sum.splits)
  from 1 have "respond_to X k E s tg b rng = finish add_leaf_json (issuer_add_leaf X name h)"
    by (simp add: respond_to_serve [OF 1(1)] serve_def route_layer_def unmetered_def extract_call_def handle_def)
  with disciplined_mono [OF disciplined_adding_leaf [OF 1(4), of name], of "leaf_acknowledged X E tg b"] Some 1(5)
  show ?thesis by (simp add: leaf_acknowledged_def)
qed

end

end
