(* ===== verification/Calm.thy ===== *)
theory Calm
  imports Outcomes
begin

text \<open>
  What a request can be answered with while the database does not fail, whatever the other requests
  do meanwhile. The replies are those of \<open>may_fault False\<close>: a statement is served or carries a text
  that the database refuses. A handler whose texts are acceptable then has no server error, with two
  exceptions: a proof may fail, and an addition whose position another one took meanwhile reports the
  violated constraint.
\<close>

abbreviation calm_replies :: "database set \<Rightarrow> request \<Rightarrow> reply \<Rightarrow> bool" where
  "calm_replies D \<equiv> replies (may_fault False) D"

subsection \<open>Statements\<close>

named_theorems calm

lemma acceptable_simps [simp]:
  "acceptable (Pool s) = list_all acceptable_text (sql_texts s)"
  "acceptable (Tx u) = list_all acceptable_text (tx_sql_texts u)"
  "acceptable Begin" "acceptable Commit" "acceptable Rollback"
  by (simp_all add: acceptable_def)

lemma calm_reply:
  assumes "calm_replies D rq r" and "acceptable rq" and "rq \<noteq> Blocking"
  shows "\<exists>t d. d \<in> D \<and> r = fst (exec Fine rq t d)"
  using assms by (auto simp: replies_def may_fault_def)

lemma acceptable_to_hex:
  assumes "hex_codec X"
  shows "acceptable_text (to_hex X f)"
proof -
  have "set (to_hex X f) \<subseteq> set lower_hex"
    using hex_codec.encode_digits [OF assms, of "fr_be f"] by (simp add: to_hex_def)
  moreover have "CHR 0x00 \<notin> set lower_hex" by (simp add: lower_hex_def)
  ultimately show ?thesis
    using hex_codec.to_hex_length [OF assms, of f]
    by (auto simp: acceptable_text_def INDEXED_TEXT_def list_all_iff)
qed

text \<open>A store method whose result is a value that satisfies \<open>T\<close>.\<close>

definition delivers :: "('a \<Rightarrow> bool) \<Rightarrow> 'e + 'a \<Rightarrow> bool" where
  "delivers T r \<longleftrightarrow> (\<exists>a. r = Inr a \<and> T a)"

lemma delivers_Inr [simp]: "delivers T (Inr a) = T a" "\<not> delivers T (Inl e)"
  by (simp_all add: delivers_def)

lemma calm_query:
  assumes "list_all acceptable_text (sql_texts s)"
    and "\<And>d. d \<in> D \<Longrightarrow> \<exists>res d'. sql_eval s d = Some (res, d') \<and> R (h res)"
  shows "returns (calm_replies D) R (query s h)"
proof -
  have "\<exists>res. r = Result res \<and> R (h res)" if r: "calm_replies D (Pool s) r" for r
  proof -
    obtain t d where d: "d \<in> D" "r = fst (exec Fine (Pool s) t d)"
      using calm_reply [OF r] assms(1) by auto
    from assms(2) [OF d(1)] d(2) show ?thesis by (auto simp: exec_def)
  qed
  then show ?thesis by (fastforce simp: query_def)
qed

lemma calm_bind_ok:
  assumes "returns A (delivers T) p" and "\<And>a. T a \<Longrightarrow> returns A R (g a)"
  shows "returns A R (bind_ok p g)"
  unfolding bind_ok_def
  by (rule returns_bind, rule returns_mono [OF assms(1)]) (auto simp: delivers_def assms(2))

lemma calm_store_call:
  assumes "returns A (delivers T) p" and "\<And>a. T a \<Longrightarrow> returns A R (g a)"
  shows "returns A R (store_call p g)"
  unfolding store_call_def
proof (rule calm_bind_ok [OF _ assms(2)])
  show "returns A (delivers T) (prog_map_err (\<lambda>e. Failed (api_error_from_store e)) p)"
    unfolding prog_map_err_def
    by (rule returns_bind, rule returns_mono [OF assms(1)]) (auto simp: delivers_def)
qed

lemma calm_ping [calm]: "returns (calm_replies D) (delivers (\<lambda>_. True)) ping"
  unfolding ping_def by (rule calm_query) (simp_all add: sql_eval_def no_rows_def)

lemma calm_list_issuers [calm]: "returns (calm_replies D) (delivers (\<lambda>_. True)) store_list_issuers"
  unfolding store_list_issuers_def by (rule calm_query) (simp_all add: sql_eval_def strings_def)

lemma calm_ensure_issuer [calm]:
  "acceptable_text i \<Longrightarrow> returns (calm_replies D) (delivers (\<lambda>_. True)) (ensure_issuer i)"
  unfolding ensure_issuer_def by (rule calm_query) (simp_all add: sql_eval_def no_rows_def)

lemma calm_issuer_exists [calm]:
  "acceptable_text i \<Longrightarrow> returns (calm_replies D) (delivers (\<lambda>_. True)) (issuer_exists i)"
  unfolding issuer_exists_def by (rule calm_query) (simp_all add: sql_eval_def scalar_def)

lemma calm_leaf_count [calm]:
  "acceptable_text i \<Longrightarrow> returns (calm_replies D) (delivers (\<lambda>_. True)) (leaf_count i)"
  unfolding leaf_count_def by (rule calm_query) (simp_all add: sql_eval_def scalar_def)

lemma calm_stored_leaves [calm]:
  assumes "acceptable_text i" and "\<And>d. d \<in> D \<Longrightarrow> store_ok X d"
  shows "returns (calm_replies D) (delivers (\<lambda>_. True)) (stored_leaves X i)"
  unfolding stored_leaves_def
  by (rule calm_query) (auto simp: assms(1) sql_eval_def strings_def select_leaves [OF assms(2)] collect_rows [OF assms(2)])

lemma calm_published_root [calm]:
  assumes "acceptable_text i" and "\<And>d. d \<in> D \<Longrightarrow> store_ok X d"
  shows "returns (calm_replies D) (delivers (\<lambda>_. True)) (published_root X i)"
  unfolding published_root_def
  by (rule calm_query) (auto simp: assms(1) sql_eval_def published_row [OF assms(2)])

lemma calm_set_published_root [calm]:
  assumes "hex_codec X" and "acceptable_text i"
  shows "returns (calm_replies D) (delivers (\<lambda>_. True)) (set_published_root X i root)"
  unfolding set_published_root_def
proof (rule calm_bind_ok [OF calm_ensure_issuer [OF assms(2)]])
  show "returns (calm_replies D) (delivers (\<lambda>_. True)) (query (UpdateRoot i (to_hex X root)) no_rows)"
    by (rule calm_query) (simp_all add: sql_eval_def no_rows_def assms(2) acceptable_to_hex [OF assms(1)])
qed

subsection \<open>Adding a leaf\<close>

text \<open>Without failures an addition ends with its result, the full tree, or a violated constraint.\<close>

definition added_or_violated :: "database set \<Rightarrow> store_error + 'a \<Rightarrow> bool" where
  "added_or_violated D r \<longleftrightarrow> (case r of Inr a \<Rightarrow> True | Inl e \<Rightarrow> e = StoreFull \<or> (\<exists>d \<in> D. e = Db (violation d)))"

lemma calm_abort: "e = StoreFull \<or> (\<exists>d \<in> D. e = Db (violation d)) \<Longrightarrow> returns A (added_or_violated D) (abort e)"
  by (simp add: abort_def added_or_violated_def)

lemma calm_begin: "calm_replies D Begin r \<Longrightarrow> r = Result Done"
  using calm_reply [of D Begin r] by (auto simp: exec_def)

lemma calm_commit: "calm_replies D Commit r \<Longrightarrow> r = Result Done \<or> (\<exists>d \<in> D. r = Error (violation d))"
  using calm_reply [of D Commit r] by (auto simp: exec_def split: option.splits)

lemma calm_count:
  assumes "calm_replies D (Tx (TxCountLeaves i)) r" and "acceptable_text i"
  shows "(\<exists>n. r = Result (Number n)) \<or> (\<exists>d \<in> D. r = Error (violation d))"
proof -
  obtain t d where d: "d \<in> D" "r = fst (exec Fine (Tx (TxCountLeaves i)) t d)"
    using calm_reply [OF assms(1)] assms(2) by auto
  then show ?thesis by (cases t) (auto simp: exec_def tx_eval_def)
qed

lemma calm_insert:
  assumes "calm_replies D (Tx (TxInsertLeaf i p h)) r" and "acceptable_text i" "acceptable_text h"
  shows "r = Result Done \<or> (\<exists>d \<in> D. r = Error (violation d))"
proof -
  obtain t d where d: "d \<in> D" "r = fst (exec Fine (Tx (TxInsertLeaf i p h)) t d)"
    using calm_reply [OF assms(1)] assms(2,3) by auto
  then show ?thesis by (cases t) (auto simp: exec_def tx_eval_def Let_def)
qed

lemma calm_append_in_tx:
  assumes "hex_codec X" and "acceptable_text i"
  shows "returns (calm_replies D) (added_or_violated D) (append_in_tx X i f)"
proof -
  have commit: "returns (calm_replies D) (added_or_violated D)
      (Call Commit (\<lambda>r. case r of Error t \<Rightarrow> Return (Inl (Db t)) | Result _ \<Rightarrow> Return (Inr a)))" for a :: "nat \<times> nat"
    by (auto simp: added_or_violated_def dest!: calm_commit)
  have insert: "returns (calm_replies D) (added_or_violated D)
      (Call (Tx (TxInsertLeaf i p (to_hex X f))) (\<lambda>r. case r of
         Error t \<Rightarrow> abort (Db t)
       | Result _ \<Rightarrow> Call Commit (\<lambda>r. case r of Error t \<Rightarrow> Return (Inl (Db t)) | Result _ \<Rightarrow> Return (Inr a))))"
    for p and a :: "nat \<times> nat"
    using commit [of a] by (auto intro!: calm_abort dest!: calm_insert simp: assms(2) acceptable_to_hex [OF assms(1)])
  show ?thesis
    unfolding append_in_tx_def
    using insert
    by (auto simp: scalar_def Let_def intro!: calm_abort dest!: calm_begin calm_count [OF _ assms(2)]) blast
qed

lemma calm_add_leaf:
  assumes "hex_codec X" and "acceptable_text i"
  shows "returns (calm_replies D) (added_or_violated D) (add_leaf X i f)"
  unfolding add_leaf_def
  by (rule calm_bind_ok [OF calm_ensure_issuer [OF assms(2)] calm_append_in_tx [OF assms]])

subsection \<open>Handlers\<close>

text \<open>The result of a handler is no internal error, or one whose text satisfies \<open>T\<close>.\<close>

definition internal_only :: "(string \<Rightarrow> bool) \<Rightarrow> api_error failure + 'a \<Rightarrow> bool" where
  "internal_only T r \<longleftrightarrow> (\<forall>t. r = Inl (Failed (Internal t)) \<longrightarrow> T t)"

lemma internal_only_simps [simp]:
  "internal_only T (Inr a)" "internal_only T (Inl Panicked)" "internal_only T (Inl (Failed (BadRequest m)))"
  "internal_only T (Inl (Failed (NotFound m)))" "internal_only T (Inl (Failed (Conflict m)))"
  "internal_only T (Inl (Failed (Internal t))) = T t"
  by (simp_all add: internal_only_def)

abbreviation no_server_error :: "api_error failure + 'a \<Rightarrow> bool" where
  "no_server_error \<equiv> internal_only (\<lambda>_. False)"

lemma calm_value_or [calm]:
  "(\<And>e. r = Inl e \<Longrightarrow> \<exists>m. e = BadRequest m \<or> e = Conflict m) \<Longrightarrow>
     (\<And>a. r = Inr a \<Longrightarrow> returns A (internal_only T) (g a)) \<Longrightarrow> returns A (internal_only T) (value_or r g)"
  by (auto simp: value_or_def split: sum.splits)

lemma calm_fail [calm]: "(\<And>t. e \<noteq> Internal t) \<Longrightarrow> returns A (internal_only T) (fail e)"
  by (simp add: fail_def internal_only_def)

lemma calm_list_issuers_handler: "returns (calm_replies D) no_server_error list_issuers"
  unfolding list_issuers_def by (rule calm_store_call [OF calm_list_issuers]) simp

lemma calm_issuer_info:
  assumes "acceptable_text i" and "\<And>d. d \<in> D \<Longrightarrow> store_ok X d"
  shows "returns (calm_replies D) no_server_error (issuer_info X i)"
  unfolding issuer_info_def
  by (rule calm_store_call [OF calm_issuer_exists [OF assms(1)]])
    (auto intro!: calm_fail calm_store_call [OF calm_leaf_count [OF assms(1)]]
      calm_store_call [OF calm_published_root [OF assms]])

lemma calm_get_root:
  assumes "acceptable_text i" and "\<And>d. d \<in> D \<Longrightarrow> store_ok X d"
  shows "returns (calm_replies D) no_server_error (get_root X i)"
  unfolding get_root_def
  by (rule calm_store_call [OF calm_published_root [OF assms]]) (auto intro!: calm_fail split: option.splits)

lemma calm_publish:
  assumes "hex_codec X" and "acceptable_text i" and "\<And>d. d \<in> D \<Longrightarrow> store_ok X d"
  shows "returns (calm_replies D) no_server_error (publish X i)"
  unfolding publish_def
proof (rule calm_store_call [OF calm_stored_leaves [OF assms(2,3)]], assumption)
  have full: "\<exists>m. e = BadRequest m \<or> e = Conflict m"
    if "map_err (\<lambda>_. Conflict m') r = Inl e" for r :: "merkle_error + merkle_tree" and m' e
    using that by (cases r) auto
  have rest: "returns (calm_replies D) no_server_error (store_call (set_published_root X i root) (\<lambda>_. Return (Inr a)))"
    for root and a :: root_response
    by (rule calm_store_call [OF calm_set_published_root [OF assms(1,2)]]) simp
  show "returns (calm_replies D) no_server_error
      (if ls = [] then fail (BadRequest (''cannot publish an empty tree '' @ em_dash @ '' add leaves first''))
       else value_or (map_err (\<lambda>_. Conflict ''the tree is full'') (from_leaves ls)) (\<lambda>tree.
         case tree_root tree of None \<Rightarrow> Return (Inl Panicked) | Some root \<Rightarrow>
           store_call (set_published_root X i root) (\<lambda>_. Return (Inr \<lparr> rr_root = hex_encode X (fr_be root) \<rparr>))))"
    for ls
    by (auto intro!: calm_fail calm_value_or rest dest!: full split: option.splits)
qed

lemma calm_issuer_add_leaf:
  assumes "hex_codec X" and "acceptable_text i"
  shows "returns (calm_replies D) (internal_only (\<lambda>t. \<exists>d \<in> D. t = ''database error: '' @ violation d))
    (issuer_add_leaf X i h)"
  unfolding issuer_add_leaf_def
proof (rule calm_value_or)
  fix f
  show "returns (calm_replies D) (internal_only (\<lambda>t. \<exists>d \<in> D. t = ''database error: '' @ violation d))
      (store_call (add_leaf X i f) (\<lambda>(pos, count). Return (Inr \<lparr> alr_position = pos, alr_count = count \<rparr>)))"
    unfolding store_call_def bind_ok_def prog_map_err_def bind_assoc
    by (rule returns_bind, rule returns_mono [OF calm_add_leaf [OF assms]])
      (auto simp: added_or_violated_def api_error_from_store_def split: sum.splits)
qed (use parse_fr_hex_quiet in blast)

subsection \<open>Responses\<close>

text \<open>
  The response is no server error, or that of an addition that violates a constraint.
\<close>

definition violated_addition :: "database set \<Rightarrow> endpoint \<Rightarrow> response \<Rightarrow> bool" where
  "violated_addition D e resp \<longleftrightarrow>
     (\<exists>p. e = AddLeaf p) \<and> status resp = 500 \<and>
     (\<exists>d \<in> D. body resp = Some (JObject [(''error'', JString (''database error: '' @ violation d))]))"

definition calm_answer :: "database set \<Rightarrow> endpoint \<Rightarrow> response option \<Rightarrow> bool" where
  "calm_answer D e a \<longleftrightarrow>
     (\<forall>resp. a = Some resp \<longrightarrow> status resp < 500 \<or> violated_addition D e resp)"

lemma calm_finish:
  fixes p :: "(api_error failure + 'a) prog"
  assumes "returns A (internal_only T) p"
    and "\<And>t resp. T t \<Longrightarrow> resp = into_response (Internal t) \<Longrightarrow> violated_addition D e resp"
  shows "returns A (calm_answer D e) (finish to_json p)"
  unfolding finish_def
proof (rule returns_bind, rule returns_mono [OF assms(1)])
  fix r :: "api_error failure + 'a"
  assume r: "internal_only T r"
  have "calm_answer D e (respond to_json r)"
  proof (cases r)
    case (Inl x)
    then show ?thesis
      using r assms(2)
      by (cases x; cases "case x of Failed err \<Rightarrow> err")
        (auto simp: calm_answer_def respond_def into_response_def json_response_def)
  qed (simp add: calm_answer_def respond_def json_response_def)
  then show "returns A (calm_answer D e) (Return (respond to_json r))" by simp
qed

lemma calm_health: "returns (calm_replies D) (calm_answer D e) (bind health (\<lambda>r. Return (Some r)))"
  unfolding health_def bind_assoc
  by (rule returns_bind, rule returns_mono [OF calm_ping])
    (auto simp: delivers_def calm_answer_def json_response_def)

lemma calm_handle:
  assumes "hex_codec X" and D: "\<And>d. d \<in> D \<Longrightarrow> store_ok X d"
    and call: "extract_call E e b rng = Inr call" "acceptable_call call" "\<not> is_proving call"
  shows "returns (calm_replies D) (calm_answer D e) (handle X k call)"
proof (cases e)
  case Health
  with call(1) show ?thesis using calm_health by (simp add: extract_call_def handle_def)
next
  case Version
  with call(1) show ?thesis by (auto simp: extract_call_def handle_def calm_answer_def json_response_def)
next
  case ListIssuers
  with call(1) show ?thesis
    using calm_finish [OF calm_list_issuers_handler, of D e] by (auto simp: extract_call_def handle_def)
next
  case (IssuerInfo p)
  with call show ?thesis
    using calm_finish [OF calm_issuer_info [OF _ D], of _ D D e]
    by (auto simp: extract_call_def handle_def acceptable_call_def result_iffs)
next
  case (AddLeaf p)
  then obtain i h where c: "call = CallAddLeaf i h" "acceptable_text i"
    using call by (auto simp: extract_call_def acceptable_call_def result_iffs)
  have "returns (calm_replies D) (calm_answer D e) (finish add_leaf_json (issuer_add_leaf X i h))"
    by (rule calm_finish [OF calm_issuer_add_leaf [OF assms(1) c(2)]])
      (auto simp: violated_addition_def AddLeaf into_response_def json_response_def)
  with c(1) show ?thesis by (simp add: handle_def)
next
  case (Publish p)
  with call show ?thesis
    using calm_finish [OF calm_publish [OF assms(1) _ D], of _ D D e]
    by (auto simp: extract_call_def handle_def acceptable_call_def result_iffs)
next
  case (GetRoot p)
  with call show ?thesis
    using calm_finish [OF calm_get_root [OF _ D], of _ D D e]
    by (auto simp: extract_call_def handle_def acceptable_call_def result_iffs)
next
  case (Prove p)
  with call show ?thesis by (auto simp: extract_call_def is_proving_def result_iffs)
qed

text \<open>Through the router; a rejection of an extractor is no handler's response.\<close>

definition calm_response ::
  "database set \<Rightarrow> 'body framework \<Rightarrow> target \<Rightarrow> 'body \<Rightarrow> response option \<Rightarrow> bool" where
  "calm_response D E tg b a \<longleftrightarrow>
     (\<forall>e call. routed tg = Handler e \<longrightarrow> extract_call E e b () = Inr call \<longrightarrow> acceptable_call call \<longrightarrow>
       \<not> is_proving call \<longrightarrow> calm_answer D e a)"

lemma extract_call_same:
  assumes "extract_call E e b () = Inr call"
  shows "\<exists>call'. extract_call E e b rng = Inr call' \<and> acceptable_call call' = acceptable_call call \<and>
    is_proving call' = is_proving call"
  using assms by (cases e) (auto simp: extract_call_def result_iffs acceptable_call_def is_proving_def)

lemma not_proving_endpoint: "extract_call E e b rng = Inr call \<Longrightarrow> \<not> is_proving call \<Longrightarrow> e \<noteq> Prove p"
  by (auto simp: extract_call_def is_proving_def result_iffs)

lemma respond_to_calm:
  assumes "hex_codec X" and D: "\<And>d. d \<in> D \<Longrightarrow> store_ok X d"
    and E: "\<And>r. status (without_body E r) = status r"
  shows "returns (calm_replies D) (calm_response D E tg b) (respond_to X k E s tg b rng)"
proof (cases "\<exists>e call. routed tg = Handler e \<and> extract_call E e b () = Inr call \<and> acceptable_call call \<and> \<not> is_proving call")
  case False
  then show ?thesis by (intro returns_any) (auto simp: calm_response_def)
next
  case True
  then obtain e call where e: "routed tg = Handler e" "extract_call E e b () = Inr call" "acceptable_call call"
      "\<not> is_proving call" by blast
  obtain call' where call': "extract_call E e b rng = Inr call'" "acceptable_call call'" "\<not> is_proving call'"
    using extract_call_same [OF e(2), of rng] e(3,4) by blast
  have "serve X k E s e b rng = handle X k call'"
    using not_proving_endpoint [OF call'(1,3)] call'(1)
    by (cases e) (auto simp: serve_def route_layer_def unmetered_def)
  moreover have "calm_answer D e (map_option (head_only E tg) a)" if a: "calm_answer D e a" for a
  proof (cases "fst tg = Head")
    case True
    then have "e \<noteq> AddLeaf p" for p using route_post [OF e(1)] by auto
    with a E True show ?thesis by (auto simp: calm_answer_def violated_addition_def head_only_def)
  qed (use a in \<open>simp add: option.map_ident\<close>)
  then have "calm_response D E tg b (map_option (head_only E tg) a)" if "calm_answer D e a" for a
    using that e(1) by (simp add: calm_response_def)
  then have "returns (calm_replies D) (\<lambda>a. returns (calm_replies D) (calm_response D E tg b)
      (Return (map_option (head_only E tg) a))) (handle X k call')"
    by (intro returns_mono [OF calm_handle [OF assms(1) D call']]) simp_all
  ultimately show ?thesis by (simp add: respond_to_def e(1) returns_bind)
qed

end
