(* ===== verification/Service.thy ===== *)
theory Service
  imports Calm
begin

text \<open>
  The whole server as one step relation: the requests in progress with their programs and
  transactions, the database with its pool of connections, the limiter with its blocking tasks, the
  responses given so far, and the shutdown signal. A step is the arrival of a request, one statement
  of one request, the start or end of a blocking task, the continuation after it, a response, the
  drop of a request whose client has gone, or a signal. Without failures of the database a statement is
  served or, for a text that Postgres refuses, refused (\<open>may_fault\<close>). A blocking task is spawned and
  unfinished; that the runtime queues some of them makes no difference to the requests. The system is
  related to its parts: it
  projects to the sessions of \<open>Store_Concurrency\<close> and to the limiter of \<open>Proof_Limit\<close>.
\<close>

subsection \<open>The shutdown signal\<close>

text \<open>
  \<open>shutdown_signal\<close> of \<open>src/main.rs\<close>, polled: it waits for Ctrl-C and, on Unix, for SIGTERM, and
  panics when a handler cannot be installed.
\<close>

datatype os_signal = CtrlC | Sigterm

datatype signal_poll = SignalPending | SignalResolved | SignalPanicked

definition shutdown_signal :: "bool \<Rightarrow> (os_signal \<Rightarrow> bool) \<Rightarrow> os_signal list \<Rightarrow> signal_poll" where
  "shutdown_signal unix installs received =
     (if \<not> installs CtrlC \<or> unix \<and> \<not> installs Sigterm then SignalPanicked
      else if CtrlC \<in> set received \<or> unix \<and> Sigterm \<in> set received then SignalResolved
      else SignalPending)"

subsection \<open>State\<close>

text \<open>
  A request in progress: its id, its method, path and body, the rest of its program, its transaction.
\<close>

type_synonym 'body open_request = "nat \<times> (target \<times> 'body) \<times> response option prog \<times> tx_state"

record 'body system =
  sys_db :: database
  sys_limiter :: limiter
  sys_requests :: "'body open_request list"
  sys_answered :: "(nat \<times> (target \<times> 'body) \<times> response option) list"
  sys_signals :: "os_signal list"
  sys_accepting :: bool

text \<open>Whether clients go away, whether the database fails, and the platform.\<close>

record regime =
  dropping :: bool
  failing :: bool
  on_unix :: bool

definition started :: "database \<Rightarrow> nat \<Rightarrow> 'body system" where
  "started d capacity =
     \<lparr> sys_db = d, sys_limiter = new_limiter capacity, sys_requests = [], sys_answered = [],
       sys_signals = [], sys_accepting = True \<rparr>"

subsection \<open>Connections\<close>

text \<open>
  A transaction keeps a connection until its end, a statement on the pool only while it runs. When
  every connection is taken, a request for one waits, until it is refused with a timeout.
\<close>

definition MAX_CONNECTIONS :: nat where
  "MAX_CONNECTIONS = 5"

definition in_transaction :: "'body open_request \<Rightarrow> bool" where
  "in_transaction c = (case c of (r, tag, p, t) \<Rightarrow> t \<noteq> None)"

definition needs_connection :: "request \<Rightarrow> bool" where
  "needs_connection rq = (case rq of Pool s \<Rightarrow> True | Begin \<Rightarrow> True | _ \<Rightarrow> False)"

definition pool_exhausted :: "request \<Rightarrow> 'body open_request list \<Rightarrow> bool" where
  "pool_exhausted rq others \<longleftrightarrow>
     needs_connection rq \<and> MAX_CONNECTIONS \<le> length (filter in_transaction others)"

definition fault_possible :: "regime \<Rightarrow> request \<Rightarrow> 'body open_request list \<Rightarrow> fault \<Rightarrow> bool" where
  "fault_possible R rq others f \<longleftrightarrow>
     (if pool_exhausted rq others then failing R \<and> (\<exists>t. f = Refused t)
      else may_fault (failing R) rq f)"

lemma fault_possible_may: "fault_possible R rq others f \<Longrightarrow> may_fault (failing R) rq f"
  by (auto simp: fault_possible_def may_fault_def split: if_splits)

text \<open>The requests as sessions of the store.\<close>

definition sessions :: "'body open_request list \<Rightarrow> response option session list" where
  "sessions cs = map (\<lambda>(r, tag, p, t). (p, t)) cs"

subsection \<open>Steps\<close>

definition request_ids :: "'body system \<Rightarrow> nat set" where
  "request_ids s = fst ` set (sys_requests s)"

definition known_ids :: "'body system \<Rightarrow> nat set" where
  "known_ids s = request_ids s \<union> fst ` set (sys_answered s) \<union> used_ids (sys_limiter s)"

definition arrived ::
  "('pk, 'rng, 'z) externs_scheme \<Rightarrow> 'pk keys \<Rightarrow> 'body framework \<Rightarrow> nat \<Rightarrow> target \<Rightarrow> 'body \<Rightarrow> 'rng \<Rightarrow>
     'body system \<Rightarrow> 'body system" where
  "arrived X k E r tg b rng s =
     s\<lparr> sys_limiter := (if metered tg then try_acquire r (sys_limiter s) else sys_limiter s),
        sys_requests := sys_requests s @ [(r, (tg, b), respond_to X k E (sys_limiter s) tg b rng, None)] \<rparr>"

text \<open>The future of a request ends: its permit, if it has one, is given back.\<close>

definition ended :: "nat \<Rightarrow> limiter \<Rightarrow> limiter" where
  "ended r l = (if r \<in> fst ` set (in_flight l) then release r l else l)"

text \<open>The server accepts requests until the signal resolves; the handlers are installed.\<close>

definition signalled :: "regime \<Rightarrow> os_signal \<Rightarrow> 'body system \<Rightarrow> 'body system" where
  "signalled R sig s =
     (let received = sys_signals s @ [sig] in
      s\<lparr> sys_signals := received,
         sys_accepting := shutdown_signal (on_unix R) (\<lambda>_. True) received = SignalPending \<rparr>)"

inductive system_step ::
  "('pk, 'rng, 'z) externs_scheme \<Rightarrow> 'pk keys \<Rightarrow> 'body framework \<Rightarrow> regime \<Rightarrow> 'body system \<Rightarrow> 'body system \<Rightarrow> bool"
  for X k E R where
  arrive: "sys_accepting s \<Longrightarrow> r \<notin> known_ids s \<Longrightarrow> system_step X k E R s (arrived X k E r tg b rng s)"
| statement:
    "sys_requests s = cs1 @ (r, tag, Call rq g, t) # cs2 \<Longrightarrow> rq \<noteq> Blocking \<Longrightarrow>
     \<not> waits rq (held_keys (sessions (cs1 @ cs2))) \<Longrightarrow> fault_possible R rq (cs1 @ cs2) f \<Longrightarrow>
     exec f rq t (sys_db s) = (rep, t', d') \<Longrightarrow>
     system_step X k E R s (s\<lparr> sys_db := d', sys_requests := cs1 @ (r, tag, g rep, t') # cs2 \<rparr>)"
| spawn:
    "(r, tag, Call Blocking g, t) \<in> set (sys_requests s) \<Longrightarrow> (r, Admitted) \<in> set (in_flight (sys_limiter s)) \<Longrightarrow>
     system_step X k E R s (s\<lparr> sys_limiter := spawn_task r (sys_limiter s) \<rparr>)"
| finish:
    "r \<in> set (tasks (sys_limiter s)) \<Longrightarrow>
     system_step X k E R s (s\<lparr> sys_limiter := finish_task r (sys_limiter s) \<rparr>)"
| resume:
    "sys_requests s = cs1 @ (r, tag, Call Blocking g, t) # cs2 \<Longrightarrow>
     (r, Proved) \<in> set (in_flight (sys_limiter s)) \<Longrightarrow>
     system_step X k E R s (s\<lparr> sys_requests := cs1 @ (r, tag, g (Result Done), t) # cs2 \<rparr>)"
| respond:
    "sys_requests s = cs1 @ (r, tag, Return a, t) # cs2 \<Longrightarrow>
     system_step X k E R s (s\<lparr> sys_limiter := ended r (sys_limiter s), sys_requests := cs1 @ cs2,
       sys_answered := sys_answered s @ [(r, tag, a)] \<rparr>)"
| drop:
    "dropping R \<Longrightarrow> sys_requests s = cs1 @ (r, tag, p, t) # cs2 \<Longrightarrow>
     system_step X k E R s (s\<lparr> sys_limiter := ended r (sys_limiter s), sys_requests := cs1 @ cs2 \<rparr>)"
| signal: "sys_accepting s \<Longrightarrow> system_step X k E R s (signalled R sig s)"

inductive_cases system_stepE: "system_step X k E R s s'"

subsection \<open>The sessions of the system\<close>

text \<open>
  As sessions of the store the requests return what they were asked along with the response. Each
  step of the system is a step of the sessions or leaves them as they are.
\<close>

definition tagged :: "'a \<Rightarrow> 'b prog \<Rightarrow> ('a \<times> 'b) prog" where
  "tagged tag p = bind p (\<lambda>a. Return (tag, a))"

definition session_of :: "'body open_request \<Rightarrow> ((target \<times> 'body) \<times> response option) session" where
  "session_of c = (case c of (r, tag, p, t) \<Rightarrow> (tagged tag p, t))"

definition store_view :: "'body system \<Rightarrow> ((target \<times> 'body) \<times> response option) server" where
  "store_view s = (sys_db s, map session_of (sys_requests s))"

definition system_program ::
  "('pk, 'rng, 'z) externs_scheme \<Rightarrow> 'pk keys \<Rightarrow> 'body framework \<Rightarrow>
     ((target \<times> 'body) \<times> response option) prog \<Rightarrow> bool" where
  "system_program X k E p \<longleftrightarrow> (\<exists>l tg b rng. p = tagged (tg, b) (respond_to X k E l tg b rng))"

lemma tagged_simps [simp]:
  "tagged tag (Return a) = Return (tag, a)" "tagged tag (Call rq g) = Call rq (\<lambda>r. tagged tag (g r))"
  by (simp_all add: tagged_def)

lemma session_of_simps [simp]: "session_of (r, tag, p, t) = (tagged tag p, t)"
  by (simp add: session_of_def)

lemma held_keys_sessions: "held_keys (sessions cs) = held_keys (map session_of cs)"
  by (induction cs) (auto simp: sessions_def)

lemma store_view_step:
  "system_step X k E R s s' \<Longrightarrow>
     server_step (system_program X k E) (store_view s) (store_view s') \<or> store_view s' = store_view s"
proof (induction rule: system_step.induct)
  case (arrive s r tg b rng)
  have "server_step (system_program X k E) (sys_db s, map session_of (sys_requests s))
      (sys_db s, map session_of (sys_requests s) @ [(tagged (tg, b) (respond_to X k E (sys_limiter s) tg b rng), None)])"
    by (rule server_step.arrive) (simp only: system_program_def, blast)
  then show ?case by (simp add: store_view_def arrived_def)
next
  case (statement s cs1 r tag rq g t cs2 f rep t' d')
  from statement(3,5) have "server_step (system_program X k E)
      (sys_db s, map session_of cs1 @ (Call rq (\<lambda>r. tagged tag (g r)), t) # map session_of cs2)
      (d', map session_of cs1 @ (tagged tag (g rep), t') # map session_of cs2)"
    by (intro server_step.request) (simp_all add: held_keys_sessions)
  with statement(1) show ?case by (simp add: store_view_def)
next
  case (resume s cs1 r tag g t cs2)
  have "server_step (system_program X k E)
      (sys_db s, map session_of cs1 @ (Call Blocking (\<lambda>r. tagged tag (g r)), t) # map session_of cs2)
      (sys_db s, map session_of cs1 @ (tagged tag (g (Result Done)), t) # map session_of cs2)"
    by (intro server_step.request [where f = Fine]) (simp_all add: exec_def waits_def)
  with resume(1) show ?case by (simp add: store_view_def)
next
  case (respond s cs1 r tag a t cs2)
  have "server_step (system_program X k E)
      (sys_db s, map session_of cs1 @ session_of (r, tag, Return a, t) # map session_of cs2)
      (sys_db s, map session_of cs1 @ map session_of cs2)"
    by (rule server_step.leave)
  with respond show ?case by (simp add: store_view_def)
next
  case (drop s cs1 r tag p t cs2)
  have "server_step (system_program X k E)
      (sys_db s, map session_of cs1 @ session_of (r, tag, p, t) # map session_of cs2)
      (sys_db s, map session_of cs1 @ map session_of cs2)"
    by (rule server_step.leave)
  with drop show ?case by (simp add: store_view_def)
qed (simp_all add: store_view_def signalled_def Let_def)

lemma store_view_reachable:
  "(system_step X k E R)\<^sup>*\<^sup>* s s' \<Longrightarrow> reachable (system_program X k E) (store_view s) (store_view s')"
proof (induction rule: rtranclp_induct)
  case (step t u)
  with store_view_step [OF step(2)] show ?case by (auto intro: reachable.step)
qed (rule reachable.start)

lemma store_view_started [simp]: "store_view (started d capacity) = (d, [])"
  by (simp add: store_view_def started_def)

end
