(* ===== verification/Composition.thy ===== *)
theory Composition
  imports Service
begin

text \<open>
  The parts of the server together. \<open>linked\<close> ties the requests in progress to the limiter; with it
  every step of the system is a step of the limiter or leaves it as it is, as theory \<open>Service\<close> shows
  for the sessions of the store. What is proved of the parts then holds of the whole: the tables, the
  permits, the tasks. The last section is about the responses that were given.
\<close>

subsection \<open>Requests and the limiter\<close>

definition never_blocks :: "'a prog \<Rightarrow> bool" where
  "never_blocks p = issues (\<lambda>rq. rq \<noteq> Blocking) p"

text \<open>
  Ids are not shared; what is in flight is in progress; a request that may still wait for a task
  has a permit; one whose task runs waits for it.
\<close>

definition request_linked :: "limiter \<Rightarrow> 'body open_request \<Rightarrow> bool" where
  "request_linked l c \<longleftrightarrow> (case c of (r, tag, p, t) \<Rightarrow>
     (never_blocks p \<or> r \<in> fst ` set (in_flight l)) \<and>
     ((r, Proving) \<in> set (in_flight l) \<longrightarrow> r \<in> set (tasks l) \<and> (\<exists>g. p = Call Blocking g)))"

definition linked :: "'body system \<Rightarrow> bool" where
  "linked s \<longleftrightarrow>
     distinct (map fst (sys_requests s)) \<and> fst ` set (in_flight (sys_limiter s)) \<subseteq> request_ids s \<and>
     (\<forall>c \<in> set (sys_requests s). request_linked (sys_limiter s) c)"

lemma never_blocks_simps [simp]:
  "never_blocks (Return a)" "never_blocks (Call rq g) \<longleftrightarrow> rq \<noteq> Blocking \<and> (\<forall>r. never_blocks (g r))"
  by (simp_all add: never_blocks_def)

lemma never_blocks_mono: "issues P p \<Longrightarrow> \<not> P Blocking \<Longrightarrow> never_blocks p"
  unfolding never_blocks_def by (induction p) auto

text \<open>Only the proving route waits for a task.\<close>

lemma reads_never_block: "issues is_read p \<Longrightarrow> never_blocks p"
  by (erule never_blocks_mono) (simp add: is_read_def)

lemma handle_never_blocks: "\<not> is_proving c \<Longrightarrow> never_blocks (handle X k c)"
proof (cases c)
  case (CallAddLeaf i h)
  show ?thesis
    unfolding CallAddLeaf handle_def call.case never_blocks_def finish_def issuer_add_leaf_def add_leaf_def
      ensure_issuer_def append_in_tx_def
    by (intro footprint) (auto simp: abort_def Let_def split: reply.splits sum.splits intro!: footprint)
next
  case (CallPublish i)
  have "issues (publishes i) (handle X k c)"
    by (simp add: CallPublish handle_def issues_finish issues_publish)
  then show ?thesis by (rule never_blocks_mono) (simp add: publishes_def)
qed (auto simp: handle_def is_proving_def intro!: reads_never_block issues_bind issues_finish issues_health
    issues_list_issuers issues_issuer_info issues_get_root)

lemma extract_call_not_prove: "extract_call E e b rng = Inr c \<Longrightarrow> (\<And>p. e \<noteq> Prove p) \<Longrightarrow> \<not> is_proving c"
  by (cases e) (auto simp: extract_call_def is_proving_def result_iffs)

lemma serve_never_blocks: "(\<And>p. e \<noteq> Prove p) \<Longrightarrow> never_blocks (serve X k E l e b rng)"
  using extract_call_not_prove [of E e b rng]
  by (cases e) (auto simp: serve_def route_layer_def unmetered_def intro!: handle_never_blocks split: sum.splits)

lemma respond_never_blocks: "\<not> metered tg \<Longrightarrow> never_blocks (respond_to X k E l tg b rng)"
  using serve_never_blocks [of _ X k E l b rng]
  by (auto simp: respond_to_def metered_iff never_blocks_def route_layer_def
      split: routing.splits endpoint.splits intro!: issues_bind)

lemma refused_when_spent:
  assumes "available l = 0" and "metered tg"
  shows "respond_to X k E l tg b rng = Return (Some (head_only E tg busy_response))"
proof -
  consider p where "routed tg = Handler (Prove p)" | p where "routed tg = MethodNotAllowed (Prove p)"
    using assms(2) by (auto simp: metered_iff)
  then show ?thesis
    by cases (simp_all add: respond_to_def serve_def route_layer_def limit_concurrent_proofs_def assms(1))
qed

lemma respond_refused: "available l = 0 \<Longrightarrow> metered tg \<Longrightarrow> never_blocks (respond_to X k E l tg b rng)"
  by (simp add: refused_when_spent)

subsection \<open>The limiter of the system\<close>

lemma request_linked_other:
  assumes "request_linked l c" and "fst c \<noteq> r"
    and "\<And>q. fst q \<noteq> r \<Longrightarrow> q \<in> set (in_flight l') \<longleftrightarrow> q \<in> set (in_flight l)"
    and "\<And>q. q \<noteq> r \<Longrightarrow> q \<in> set (tasks l) \<Longrightarrow> q \<in> set (tasks l')"
  shows "request_linked l' c"
proof -
  obtain r' tag p t where c: "c = (r', tag, p, t)" by (rule prod_cases4)
  have "(r', st) \<in> set (in_flight l') \<longleftrightarrow> (r', st) \<in> set (in_flight l)" for st
    using assms(2,3) c by simp
  then have "r' \<in> fst ` set (in_flight l') \<longleftrightarrow> r' \<in> fst ` set (in_flight l)"
    "(r', Proving) \<in> set (in_flight l') \<longleftrightarrow> (r', Proving) \<in> set (in_flight l)"
    by (auto simp: image_iff)
  with assms(1,2,4) c show ?thesis by (auto simp: request_linked_def)
qed

lemma in_flight_stage:
  "permits_ok n l \<Longrightarrow> (r, st) \<in> set (in_flight l) \<Longrightarrow> (r, st') \<in> set (in_flight l) \<Longrightarrow> st = st'"
  unfolding permits_ok_def by (blast dest: eq_key_imp_eq_value)

lemma try_acquire_sel:
  "tasks (try_acquire r l) = tasks l"
  "in_flight (try_acquire r l) = (if 0 < available l then in_flight l @ [(r, Admitted)] else in_flight l)"
  by (simp_all add: try_acquire_def)

lemma ended_sel:
  "tasks (ended r l) = tasks l" "q \<in> set (in_flight (ended r l)) \<longleftrightarrow> q \<in> set (in_flight l) \<and> fst q \<noteq> r"
  by (auto simp: ended_def release_def image_iff)

lemma linked_arrive:
  assumes s: "linked s" and r: "r \<notin> known_ids s"
  shows "linked (arrived X k E r tg b rng s)"
proof -
  let ?l = "sys_limiter s" and ?s = "arrived X k E r tg b rng s"
  have new: "r \<notin> request_ids s" "r \<notin> fst ` set (in_flight ?l)" "r \<notin> set (tasks ?l)"
    using r by (simp_all add: known_ids_def used_ids_def)
  have tasks: "tasks (sys_limiter ?s) = tasks ?l"
    by (simp add: arrived_def try_acquire_sel)
  have flight: "set (in_flight (sys_limiter ?s)) = set (in_flight ?l) \<or>
      metered tg \<and> 0 < available ?l \<and> set (in_flight (sys_limiter ?s)) = insert (r, Admitted) (set (in_flight ?l))"
    by (simp add: arrived_def try_acquire_sel)
  have "request_linked (sys_limiter ?s) (r, (tg, b), respond_to X k E ?l tg b rng, None)"
  proof (cases "set (in_flight (sys_limiter ?s)) = set (in_flight ?l)")
    case True
    moreover have "(r, Admitted) \<notin> set (in_flight ?l)" using new(2) by force
    ultimately have "available ?l = 0 \<or> \<not> metered tg"
      by (auto simp: arrived_def try_acquire_sel split: if_splits)
    then have "never_blocks (respond_to X k E ?l tg b rng)"
      using respond_never_blocks [of tg X k E ?l b rng] respond_refused [of ?l tg X k E b rng] by blast
    with True new(2) show ?thesis by (force simp: request_linked_def)
  next
    case False
    with flight have "set (in_flight (sys_limiter ?s)) = insert (r, Admitted) (set (in_flight ?l))" by blast
    with new(2) show ?thesis by (force simp: request_linked_def)
  qed
  moreover have "request_linked (sys_limiter ?s) c" if c: "c \<in> set (sys_requests s)" for c
  proof (rule request_linked_other [where r = r])
    show "request_linked ?l c" using s c by (simp add: linked_def)
    show "fst c \<noteq> r" using new(1) c by (auto simp: request_ids_def)
  qed (use flight tasks in auto)
  moreover have "map fst (sys_requests ?s) = map fst (sys_requests s) @ [r]"
    "set (sys_requests ?s) = insert (r, (tg, b), respond_to X k E ?l tg b rng, None) (set (sys_requests s))"
    by (simp_all add: arrived_def)
  moreover have "fst ` set (in_flight (sys_limiter ?s)) \<subseteq> insert r (fst ` set (in_flight ?l))"
    using flight by (elim disjE conjE) (simp_all add: subset_insertI)
  moreover have "distinct (map fst (sys_requests s))" "fst ` set (in_flight ?l) \<subseteq> fst ` set (sys_requests s)"
    using s by (simp_all add: linked_def request_ids_def)
  ultimately show ?thesis
    unfolding linked_def request_ids_def using new(1) by (simp add: request_ids_def) blast
qed

text \<open>One request goes on, or ends.\<close>

lemma linked_continue:
  assumes s: "linked s" and cs: "sys_requests s = cs1 @ (r, tag, p, t) # cs2"
    and cs': "sys_requests s' = cs1 @ (r, tag, p', t') # cs2" and l: "sys_limiter s' = sys_limiter s"
    and p: "never_blocks p \<Longrightarrow> never_blocks p'" and r: "(r, Proving) \<notin> set (in_flight (sys_limiter s))"
  shows "linked s'"
  using s p r unfolding linked_def request_ids_def cs cs' l
  by (auto simp: request_linked_def)

lemma linked_end:
  assumes s: "linked s" and cs: "sys_requests s = cs1 @ (r, tag, p, t) # cs2"
    and cs': "sys_requests s' = cs1 @ cs2" and l: "sys_limiter s' = ended r (sys_limiter s)"
  shows "linked s'"
proof -
  have ids: "r \<notin> fst ` set (cs1 @ cs2)" "distinct (map fst (cs1 @ cs2))"
    using s by (auto simp: linked_def cs)
  have "request_linked (ended r (sys_limiter s)) c" if c: "c \<in> set (cs1 @ cs2)" for c
  proof (rule request_linked_other [where r = r])
    show "request_linked (sys_limiter s) c" using s c by (auto simp: linked_def cs)
    show "fst c \<noteq> r" using ids(1) c by force
  qed (simp_all add: ended_sel)
  moreover have "fst ` set (in_flight (ended r (sys_limiter s))) \<subseteq> fst ` set (cs1 @ cs2)"
  proof
    fix q assume "q \<in> fst ` set (in_flight (ended r (sys_limiter s)))"
    then have "q \<in> fst ` set (in_flight (sys_limiter s))" "q \<noteq> r" by (auto simp: ended_sel)
    with s show "q \<in> fst ` set (cs1 @ cs2)" by (auto simp: linked_def request_ids_def cs)
  qed
  ultimately show ?thesis using ids(2) by (simp add: linked_def request_ids_def cs' l)
qed

text \<open>The stage of one request in flight changes.\<close>

lemma linked_stage:
  assumes s: "linked s" and s': "sys_requests s' = sys_requests s" "sys_limiter s' = l'"
    and keys: "map fst (in_flight l') = map fst (in_flight (sys_limiter s))"
    and others: "\<And>q. fst q \<noteq> r \<Longrightarrow> q \<in> set (in_flight l') \<longleftrightarrow> q \<in> set (in_flight (sys_limiter s))"
    and tasks: "\<And>q. q \<noteq> r \<Longrightarrow> q \<in> set (tasks (sys_limiter s)) \<Longrightarrow> q \<in> set (tasks l')"
    and own: "\<And>tag p t. (r, tag, p, t) \<in> set (sys_requests s) \<Longrightarrow> (r, Proving) \<in> set (in_flight l') \<Longrightarrow>
      r \<in> set (tasks l') \<and> (\<exists>g. p = Call Blocking g)"
  shows "linked s'"
proof -
  have ids: "fst ` set (in_flight l') = fst ` set (in_flight (sys_limiter s))"
    using keys by (metis list.set_map)
  have "request_linked l' c" if c: "c \<in> set (sys_requests s)" for c
  proof (cases "fst c = r")
    case True
    then obtain tag p t where c': "c = (r, tag, p, t)" by (cases c) auto
    have "request_linked (sys_limiter s) c" using s c by (simp add: linked_def)
    with own [OF c [unfolded c']] ids c' show ?thesis by (simp add: request_linked_def)
  next
    case False
    show ?thesis
    proof (rule request_linked_other [OF _ False])
      show "request_linked (sys_limiter s) c" using s c by (simp add: linked_def)
    qed (fact others tasks)+
  qed
  with s show ?thesis by (simp add: linked_def request_ids_def ids s')
qed

lemma linked_unique:
  "linked s \<Longrightarrow> (r, tag, p, t) \<in> set (sys_requests s) \<Longrightarrow> (r, tag', p', t') \<in> set (sys_requests s) \<Longrightarrow> p = p'"
  using eq_key_imp_eq_value [of "sys_requests s" r "(tag, p, t)" "(tag', p', t')"]
  unfolding linked_def by blast

lemma linked_step:
  assumes st: "system_step X k E R s s'" and s: "linked s" and pm: "permits_ok n (sys_limiter s)"
  shows "linked s'"
  using st
proof cases
  case (arrive r tg b rng)
  with s show ?thesis by (simp add: linked_arrive)
next
  case (statement cs1 r tag rq g t cs2 f rep t' d')
  have "request_linked (sys_limiter s) (r, tag, Call rq g, t)" using s statement(2) by (simp add: linked_def)
  with statement(3) have "(r, Proving) \<notin> set (in_flight (sys_limiter s))" by (auto simp: request_linked_def)
  from linked_continue [OF s statement(2) _ _ _ this] show ?thesis by (simp add: statement(1))
next
  case (spawn r tag g t)
  show ?thesis
  proof (rule linked_stage [OF s, where r = r])
    fix tag' p t' assume "(r, tag', p, t') \<in> set (sys_requests s)"
    with linked_unique [OF s spawn(2)] have "p = Call Blocking g" by blast
    then show "r \<in> set (tasks (spawn_task r (sys_limiter s))) \<and> (\<exists>g. p = Call Blocking g)" by simp
  qed (auto simp: spawn(1) set_stage_in_flight)
next
  case (finish r)
  show ?thesis
    by (rule linked_stage [OF s, where r = r and l' = "finish_task r (sys_limiter s)"])
      (auto simp: finish(1) set_stage_in_flight)
next
  case (resume cs1 r tag g t cs2)
  have "(r, Proving) \<notin> set (in_flight (sys_limiter s))" using in_flight_stage [OF pm resume(3)] by blast
  from linked_continue [OF s resume(2) _ _ _ this] show ?thesis by (simp add: resume(1))
next
  case (respond cs1 r tag a t cs2)
  show ?thesis by (rule linked_end [OF s respond(2)]) (simp_all add: respond(1))
next
  case (drop cs1 r tag p t cs2)
  show ?thesis by (rule linked_end [OF s drop(3)]) (simp_all add: drop(1))
next
  case (signal sig)
  with s show ?thesis by (simp add: signalled_def linked_def request_ids_def Let_def)
qed

text \<open>Every step is one of the limiter, without cancellation when no client goes away.\<close>

lemma ended_step:
  assumes "linked s" and "(r, tag, Return a, t) \<in> set (sys_requests s)"
  shows "ended r (sys_limiter s) = sys_limiter s \<or> limiter_step (sys_limiter s) (ended r (sys_limiter s))"
proof (cases "r \<in> fst ` set (in_flight (sys_limiter s))")
  case True
  then obtain st where st: "(r, st) \<in> set (in_flight (sys_limiter s))" by auto
  with assms have "st \<noteq> Proving" by (force simp: linked_def request_linked_def)
  with st True show ?thesis by (auto simp: ended_def intro: limiter_step.respond)
qed (simp add: ended_def)

lemma limiter_view_step:
  assumes st: "system_step X k E R s s'" and s: "linked s" and R: "\<not> dropping R"
  shows "sys_limiter s' = sys_limiter s \<or> limiter_step (sys_limiter s) (sys_limiter s')"
  using st
proof cases
  case (arrive r tg b rng)
  then have "r \<notin> used_ids (sys_limiter s)" by (simp add: known_ids_def)
  with arrive(1) show ?thesis by (auto simp: arrived_def intro: limiter_step.arrive)
next
  case (respond cs1 r tag a t cs2)
  with ended_step [OF s, of r tag a t] show ?thesis by simp
qed (use R in \<open>auto simp: signalled_def Let_def intro: limiter_step.intros\<close>)

lemma limiter_view_step_dropping:
  assumes st: "system_step X k E R s s'" and s: "linked s"
  shows "sys_limiter s' = sys_limiter s \<or> dropping_step (sys_limiter s) (sys_limiter s')"
  using st
proof cases
  case (arrive r tg b rng)
  then have "r \<notin> used_ids (sys_limiter s)" by (simp add: known_ids_def)
  with arrive(1) show ?thesis
    by (auto simp: arrived_def intro: limiter_step.arrive dropping_step.normal)
next
  case (respond cs1 r tag a t cs2)
  with ended_step [OF s, of r tag a t] show ?thesis by (auto intro: dropping_step.normal)
next
  case (drop cs1 r tag p t cs2)
  then show ?thesis by (auto simp: ended_def intro: dropping_step.cancel)
qed (auto simp: signalled_def Let_def intro: limiter_step.intros dropping_step.normal)

lemma linked_started: "linked (started d capacity)" "permits_ok capacity (sys_limiter (started d capacity))"
  by (simp_all add: started_def new_limiter_ok) (simp add: linked_def new_limiter_def)

lemma limiter_view:
  assumes "(system_step X k E R)\<^sup>*\<^sup>* s s'" and "linked s" and "permits_ok n (sys_limiter s)"
  shows "linked s' \<and> permits_ok n (sys_limiter s') \<and>
    dropping_step\<^sup>*\<^sup>* (sys_limiter s) (sys_limiter s') \<and>
    (\<not> dropping R \<longrightarrow> limiter_step\<^sup>*\<^sup>* (sys_limiter s) (sys_limiter s'))"
  using assms
proof (induction rule: rtranclp_induct)
  case (step t u)
  then have t: "linked t" "permits_ok n (sys_limiter t)" by simp_all
  have "permits_ok n (sys_limiter u)"
    using limiter_view_step_dropping [OF step(2) t(1)] dropping_step_permits t(2) by auto
  with limiter_view_step [OF step(2) t(1)] limiter_view_step_dropping [OF step(2) t(1)] step
    linked_step [OF step(2) t]
  show ?case by (auto intro: rtranclp.rtrancl_into_rtrancl)
qed simp

subsection \<open>The invariant of the system\<close>

definition answer_view ::
  "('pk, 'rng, 'z) externs_scheme \<Rightarrow> 'body framework \<Rightarrow> tx_view \<Rightarrow>
     (target \<times> 'body) \<times> response option \<Rightarrow> bool" where
  "answer_view X E v x = (case x of ((tg, b), a) \<Rightarrow> leaf_acknowledged X E tg b v a)"

text \<open>An acknowledged leaf is in the tree, at the position that was answered.\<close>

definition leaf_stored ::
  "('pk, 'rng, 'z) externs_scheme \<Rightarrow> 'body framework \<Rightarrow> database \<Rightarrow> target \<Rightarrow> 'body \<Rightarrow> response option \<Rightarrow> bool" where
  "leaf_stored X E d tg b a \<longleftrightarrow>
     (\<forall>name f pos count. leaf_request X E tg b = Some (name, f) \<longrightarrow> a = Some (leaf_answer pos count) \<longrightarrow>
       pos < length (abs_leaves X d name) \<and> abs_leaves X d name ! pos = f \<and> count = pos + 1)"

definition answers_ok :: "('pk, 'rng, 'z) externs_scheme \<Rightarrow> 'body framework \<Rightarrow> 'body system \<Rightarrow> bool" where
  "answers_ok X E s \<longleftrightarrow>
     (\<forall>r tg b a. (r, (tg, b), a) \<in> set (sys_answered s) \<longrightarrow> leaf_stored X E (sys_db s) tg b a)"

definition system_inv ::
  "('pk, 'rng, 'z) externs_scheme \<Rightarrow> 'body framework \<Rightarrow> nat \<Rightarrow> 'body system \<Rightarrow> bool" where
  "system_inv X E capacity s \<longleftrightarrow>
     server_inv X (answer_view X E) (store_view s) \<and> permits_ok capacity (sys_limiter s) \<and> linked s \<and>
     answers_ok X E s"

lemma leaf_stored_append:
  assumes "leaf_stored X E d tg b a" and "\<And>i. \<exists>new. abs_leaves X d' i = abs_leaves X d i @ new"
  shows "leaf_stored X E d' tg b a"
  unfolding leaf_stored_def
proof (intro allI impI)
  fix name f pos count
  assume "leaf_request X E tg b = Some (name, f)" "a = Some (leaf_answer pos count)"
  with assms(1) have "pos < length (abs_leaves X d name) \<and> abs_leaves X d name ! pos = f \<and> count = pos + 1"
    unfolding leaf_stored_def by blast
  moreover obtain new where "abs_leaves X d' name = abs_leaves X d name @ new" using assms(2) by blast
  ultimately show "pos < length (abs_leaves X d' name) \<and> abs_leaves X d' name ! pos = f \<and> count = pos + 1"
    by (simp add: nth_append)
qed

lemma step_answers:
  assumes "system_step X k E R s s'"
  shows "sys_answered s' = sys_answered s \<or>
    (\<exists>r tag a t. (r, tag, Return a, t) \<in> set (sys_requests s) \<and>
       sys_answered s' = sys_answered s @ [(r, tag, a)] \<and> sys_db s' = sys_db s)"
  using assms
proof cases
  case (respond cs1 r tag a t cs2)
  then show ?thesis by (intro disjI2 exI [of _ r] exI [of _ tag] exI [of _ a] exI [of _ t]) simp
qed (simp_all add: arrived_def signalled_def Let_def)

lemma view_stored:
  assumes "store_ok X d" and "leaf_added X i f v (Inr (pos, count))" and "view_ok X d t v"
    and "stored_fr X (to_hex X f) = f"
  shows "pos < length (abs_leaves X d i) \<and> abs_leaves X d i ! pos = f \<and> count = pos + 1"
proof -
  obtain p where p: "v = Committed i p (to_hex X f)" "pos = i32_as_usize p" "count = pos + 1"
    using assms(2) by (cases v) (auto simp: leaf_added_def)
  let ?r = "\<lparr> row_issuer = i, row_position = p, row_commitment = to_hex X f \<rparr>"
  have "?r \<in> set (leaf_rows d)" using assms(3) p(1) by simp
  with committed_row_position [OF assms(1), of ?r] assms(4) p show ?thesis by simp
qed

context hex_codec
begin

lemma system_program_disciplined:
  assumes "system_program X k E p"
  shows "disciplined X (answer_view X E) p Idle"
proof -
  obtain l tg b rng where p: "p = tagged (tg, b) (respond_to X k E l tg b rng)"
    using assms by (auto simp: system_program_def)
  show ?thesis
    unfolding p tagged_def
    by (rule disciplined_bind, rule disciplined_mono [OF respond_disciplined [of E tg b k l rng]])
      (simp add: answer_view_def)
qed

lemma answered_ok:
  assumes inv: "server_inv X (answer_view X E) (store_view s)"
    and r: "(r, (tg, b), Return a, t) \<in> set (sys_requests s)"
  shows "leaf_stored X E (sys_db s) tg b a"
proof -
  have "session_ok X (answer_view X E) (sys_db s) (Return ((tg, b), a), t)"
    using inv r by (force simp: server_inv_def store_view_def session_of_def)
  then obtain v where v: "leaf_acknowledged X E tg b v a" "view_ok X (sys_db s) t v"
    by (auto simp: session_ok_def answer_view_def)
  have "store_ok X (sys_db s)" using inv by (simp add: server_inv_def store_view_def)
  from view_stored [OF this _ v(2) stored_fr_to_hex] v(1) show ?thesis
    unfolding leaf_stored_def leaf_acknowledged_def by blast
qed

lemma system_inv_step:
  assumes inv: "system_inv X E capacity s" and st: "system_step X k E R s s'"
  shows "system_inv X E capacity s'"
proof -
  have srv: "server_inv X (answer_view X E) (store_view s)" and pm: "permits_ok capacity (sys_limiter s)"
    and ln: "linked s" and ans: "answers_ok X E s"
    using inv by (simp_all add: system_inv_def)
  have srv': "server_inv X (answer_view X E) (store_view s')"
    using store_view_step [OF st]
  proof
    assume "server_step (system_program X k E) (store_view s) (store_view s')"
    from server_inv_step [OF srv system_program_disciplined this] show ?thesis .
  qed (simp add: srv)
  have pm': "permits_ok capacity (sys_limiter s')"
    using limiter_view_step_dropping [OF st ln] dropping_step_permits [OF _ pm] pm by auto
  have grows: "\<exists>new. abs_leaves X (sys_db s') i = abs_leaves X (sys_db s) i @ new" for i
    using store_view_step [OF st] server_step_appends [OF srv, of "system_program X k E" "store_view s'" i]
    by (auto simp: store_view_def)
  have old: "leaf_stored X E (sys_db s) tg b a \<Longrightarrow> leaf_stored X E (sys_db s') tg b a" for tg b a
    by (rule leaf_stored_append [OF _ grows])
  have "answers_ok X E s'"
    using step_answers [OF st]
  proof (elim disjE exE conjE)
    assume "sys_answered s' = sys_answered s"
    with ans old show ?thesis unfolding answers_ok_def by metis
  next
    fix r tag a t assume 1: "(r, tag, Return a, t) \<in> set (sys_requests s)"
      "sys_answered s' = sys_answered s @ [(r, tag, a)]" "sys_db s' = sys_db s"
    obtain tg' b where tag: "tag = (tg', b)" by (rule prod.exhaust)
    from answered_ok [OF srv 1(1) [unfolded tag]] ans 1(2,3) tag show ?thesis
      by (auto simp: answers_ok_def)
  qed
  with srv' pm' linked_step [OF st ln pm] show ?thesis by (simp add: system_inv_def)
qed

lemma system_inv_started: "store_ok X d \<Longrightarrow> system_inv X E capacity (started d capacity)"
  by (simp add: system_inv_def server_inv_init linked_started) (simp add: answers_ok_def started_def)

lemma system_inv_reachable:
  "(system_step X k E R)\<^sup>*\<^sup>* s s' \<Longrightarrow> system_inv X E capacity s \<Longrightarrow> system_inv X E capacity s'"
  by (induction rule: rtranclp_induct) (auto intro: system_inv_step)

end

lemma started_reaches:
  assumes "hex_codec X" and "store_ok X d" and "(system_step X k E R)\<^sup>*\<^sup>* (started d capacity) s"
  shows "system_inv X E capacity s"
  by (rule hex_codec.system_inv_reachable [OF assms(1,3) hex_codec.system_inv_started [OF assms(1,2)]])

subsection \<open>Where the answers come from\<close>

text \<open>
  What every program returns that the router starts, every answer is. \<open>answering A Q\<close> says it of the
  requests in progress, whose replies satisfy \<open>A\<close>, and of those answered.
\<close>

definition answering ::
  "(request \<Rightarrow> reply \<Rightarrow> bool) \<Rightarrow> (target \<Rightarrow> 'body \<Rightarrow> response option \<Rightarrow> bool) \<Rightarrow> 'body system \<Rightarrow> bool" where
  "answering A Q s \<longleftrightarrow>
     (\<forall>(r, (tg, b), p, t) \<in> set (sys_requests s). returns A (Q tg b) p) \<and>
     (\<forall>(r, (tg, b), a) \<in> set (sys_answered s). Q tg b a)"

lemma answering_step:
  assumes st: "system_step X k E R s s'" and s: "answering (replies F D) Q s" and D: "sys_db s \<in> D"
    and Q: "\<And>tg b l rng. returns (replies F D) (Q tg b) (respond_to X k E l tg b rng)"
    and F: "\<And>rq f. may_fault (failing R) rq f \<Longrightarrow> F rq f"
  shows "answering (replies F D) Q s'"
  using st
proof cases
  case (arrive r tg b rng)
  with s Q show ?thesis by (simp add: answering_def arrived_def)
next
  case (statement cs1 r tag rq g t cs2 f rep t' d')
  have "F rq f" by (rule F [OF fault_possible_may [OF statement(5)]])
  with s statement(1,2) replies_exec [OF statement(6), of F D] D show ?thesis by (auto simp: answering_def)
next
  case (resume cs1 r tag g t cs2)
  with s show ?thesis by (auto simp: answering_def replies_def)
next
  case (respond cs1 r tag a t cs2)
  with s show ?thesis by (auto simp: answering_def)
next
  case (drop cs1 r tag p t cs2)
  with s show ?thesis by (auto simp: answering_def)
next
  case (signal sig)
  with s show ?thesis by (simp add: answering_def signalled_def Let_def)
qed (use s in \<open>simp_all add: answering_def\<close>)

definition states_before :: "('s \<Rightarrow> 's \<Rightarrow> bool) \<Rightarrow> 's \<Rightarrow> 's \<Rightarrow> 's set" where
  "states_before st s s' = {u. st\<^sup>*\<^sup>* s u \<and> st\<^sup>*\<^sup>* u s'}"

lemma answering_reachable:
  assumes "(system_step X k E R)\<^sup>*\<^sup>* s s'" and "answering (replies F D) Q s"
    and "sys_db ` states_before (system_step X k E R) s s' \<subseteq> D"
    and Q: "\<And>tg b l rng. returns (replies F D) (Q tg b) (respond_to X k E l tg b rng)"
    and F: "\<And>rq f. may_fault (failing R) rq f \<Longrightarrow> F rq f"
  shows "answering (replies F D) Q s'"
  using assms(1-3)
proof (induction rule: rtranclp_induct)
  case (step t u)
  have "states_before (system_step X k E R) s t \<subseteq> states_before (system_step X k E R) s u"
    using step(2) by (auto simp: states_before_def intro: rtranclp.rtrancl_into_rtrancl)
  moreover have "t \<in> states_before (system_step X k E R) s t" using step(1) by (simp add: states_before_def)
  ultimately have "sys_db ` states_before (system_step X k E R) s t \<subseteq> D" "sys_db t \<in> D"
    using step(5) by blast+
  with answering_step [OF step(2) _ _ Q F] step(3,4) show ?case by blast
qed

lemma visited_ok:
  assumes "hex_codec X" "store_ok X d"
    and "d' \<in> sys_db ` states_before (system_step X k E R) (started d capacity) s"
  shows "store_ok X d'"
proof -
  from assms(3) obtain u where u: "d' = sys_db u" "(system_step X k E R)\<^sup>*\<^sup>* (started d capacity) u"
    by (auto simp: states_before_def)
  from started_reaches [OF assms(1,2) u(2)] u(1) show ?thesis
    by (simp add: system_inv_def server_inv_def store_view_def)
qed

lemma answering_started: "answering A Q (started d capacity)"
  by (simp add: answering_def started_def)

lemma answered_proper:
  assumes "hex_codec X" "store_ok X d" "(system_step X k E R)\<^sup>*\<^sup>* (started d capacity) s"
    and "(r, (tg, b), a) \<in> set (sys_answered s)"
  shows "proper_response X k (sys_db ` states_before (system_step X k E R) (started d capacity) s) E tg b a"
proof -
  let ?D = "sys_db ` states_before (system_step X k E R) (started d capacity) s"
  have "answering (replies (\<lambda>_ _. True) ?D) (proper_response X k ?D E) s"
    using respond_to_proper [OF visited_ok [OF assms(1,2)]]
    by (intro answering_reachable [OF assms(3) answering_started order_refl]) simp_all
  with assms(4) show ?thesis by (auto simp: answering_def)
qed

text \<open>Without failures, and the text that the database reports for a violated constraint is fixed.\<close>

lemma answered_calm:
  assumes "hex_codec X" "store_ok X d" "(system_step X k E R)\<^sup>*\<^sup>* (started d capacity) s"
    and "(r, (tg, b), a) \<in> set (sys_answered s)" and "\<not> failing R"
    and "\<And>r. status (without_body E r) = status r"
  shows "calm_response (sys_db ` states_before (system_step X k E R) (started d capacity) s) E tg b a"
proof -
  let ?D = "sys_db ` states_before (system_step X k E R) (started d capacity) s"
  have "answering (calm_replies ?D) (calm_response ?D E) s"
    using respond_to_calm [OF assms(1) visited_ok [OF assms(1,2)] assms(6)] assms(5)
    by (intro answering_reachable [OF assms(3) answering_started order_refl]) simp_all
  with assms(4) show ?thesis by (auto simp: answering_def)
qed

lemma exec_violation: "exec f rq t d = (rep, t', d') \<Longrightarrow> violation d' = violation d"
  by (auto simp: exec_def sql_eval_def split: request.splits sql.splits option.splits if_splits)

lemma violation_step: "system_step X k E R s s' \<Longrightarrow> violation (sys_db s') = violation (sys_db s)"
  by (induction rule: system_step.induct) (auto simp: arrived_def signalled_def Let_def dest: exec_violation)

lemma violation_reachable:
  "(system_step X k E R)\<^sup>*\<^sup>* s s' \<Longrightarrow> violation (sys_db s') = violation (sys_db s)"
  by (induction rule: rtranclp_induct) (simp_all add: violation_step)

lemma violation_visited:
  "d' \<in> sys_db ` states_before (system_step X k E R) (started d capacity) s \<Longrightarrow> violation d' = violation d"
  using violation_reachable [of X k E R "started d capacity"] by (auto simp: states_before_def started_def)

text \<open>Both together: what an answer is, and when it may be a server error.\<close>

definition handler_status :: "endpoint \<Rightarrow> nat \<Rightarrow> bool" where
  "handler_status e code \<longleftrightarrow> code \<in> {200, 400, 404, 409, 500} \<or> code = 503 \<and> e = Health"

lemma proper_handler:
  assumes "proper_answer X k D E e b a" and "a' = map_option (head_only E tg) a"
    and "routed tg = Handler e" and E: "\<And>r. status (without_body E r) = status r"
  shows "\<exists>resp. a' = Some resp \<and>
    (metered tg \<and> resp = busy_response \<or>
     (case extract_call E e b () of
        Inl code \<Rightarrow> status resp = code
      | Inr call \<Rightarrow> handler_status e (status resp)))"
proof -
  obtain r where r: "a = Some r" "r = busy_response \<and> (\<exists>p. e = Prove p) \<or>
      (case extract_call E e b () of
         Inl code \<Rightarrow> r = rejection code
       | Inr call \<Rightarrow> (\<exists>err. r = into_response err) \<or> status r = 503 \<and> e = Health \<or> status r = 200)"
    using assms(1) unfolding proper_answer_def by (cases "extract_call E e b ()") auto
  have answer: "r = busy_response \<and> (\<exists>p. e = Prove p) \<or>
      (case extract_call E e b () of Inl code \<Rightarrow> status r = code | Inr call \<Rightarrow> handler_status e (status r))"
    using r(2) into_response_status
    by (cases "extract_call E e b ()") (auto simp: handler_status_def rejection_def)
  have "status (head_only E tg r) = status r" by (simp add: head_only_def E)
  moreover have "head_only E tg r = r \<and> metered tg" if "e = Prove p" for p
    using route_post [OF assms(3)] that assms(3) by (auto simp: metered_iff)
  ultimately show ?thesis using answer r(1) assms(2) by (cases "extract_call E e b ()") auto
qed

text \<open>A server error has a reason.\<close>

lemma server_error_reason:
  assumes "hex_codec X" "store_ok X d" "(system_step X k E R)\<^sup>*\<^sup>* (started d capacity) s"
    and "(r, (tg, b), Some resp) \<in> set (sys_answered s)" and E: "\<And>r. status (without_body E r) = status r"
    and call: "routed tg = Handler e" "extract_call E e b () = Inr call" and "500 \<le> status resp"
  shows "failing R \<or> is_proving call \<or> \<not> acceptable_call call \<or>
    (\<exists>p. e = AddLeaf p) \<and> body resp = Some (JObject [(''error'', JString (''database error: '' @ violation d))])"
proof -
  have "(\<exists>p. e = AddLeaf p) \<and> body resp = Some (JObject [(''error'', JString (''database error: '' @ violation d))])"
    if calm: "\<not> failing R" "\<not> is_proving call" "acceptable_call call"
  proof -
    let ?D = "sys_db ` states_before (system_step X k E R) (started d capacity) s"
    have "calm_answer ?D e (Some resp)"
      using answered_calm [OF assms(1-4) calm(1) E] call calm(2,3) unfolding calm_response_def by blast
    with assms(8) have "violated_addition ?D e resp" by (simp add: calm_answer_def)
    then obtain d' where "\<exists>p. e = AddLeaf p" "d' \<in> ?D"
        "body resp = Some (JObject [(''error'', JString (''database error: '' @ violation d'))])"
      unfolding violated_addition_def by blast
    with violation_visited [of d' X k E R d capacity s]
    show ?thesis by simp
  qed
  then show ?thesis by blast
qed

text \<open>A request whose program has ended holds no transaction.\<close>

lemma ended_program_closed:
  assumes inv: "system_inv X E capacity s" and r: "(r, (tg, b), Return a, t) \<in> set (sys_requests s)"
  shows "t = None"
proof -
  have "session_ok X (answer_view X E) (sys_db s) (Return ((tg, b), a), t)"
    using inv r by (force simp: system_inv_def server_inv_def store_view_def session_of_def)
  then obtain v where "closed v" "view_ok X (sys_db s) t v" by (auto simp: session_ok_def)
  then show ?thesis by (cases v) auto
qed

end
