(* ===== verification/Shutdown.thy ===== *)
theory Shutdown
  imports Composition "HOL-Library.Multiset"
begin

text \<open>
  Progress and termination of the whole server. While a request or a task is unfinished some step
  that is neither an arrival nor a signal can be taken, without a failure of the database and
  without a client going away, although the pool has five connections, positions are waited for and
  permits are limited. Once the shutdown signal has resolved every run ends, and it ends with
  nothing left.
\<close>

subsection \<open>Progress\<close>

text \<open>No request arrived and no signal.\<close>

definition advances :: "'body system \<Rightarrow> 'body system \<Rightarrow> bool" where
  "advances s s' \<longleftrightarrow> request_ids s' \<subseteq> request_ids s \<and> sys_signals s' = sys_signals s"

definition idle :: "'body system \<Rightarrow> bool" where
  "idle s \<longleftrightarrow> sys_requests s = [] \<and> tasks (sys_limiter s) = []"

lemma advancing:
  "system_step X k E R s s' \<Longrightarrow> request_ids s' \<subseteq> request_ids s \<Longrightarrow> sys_signals s' = sys_signals s \<Longrightarrow>
     \<exists>s'. system_step X k E R s s' \<and> advances s s'"
  by (auto simp: advances_def)

lemma statement_runs:
  assumes cs: "sys_requests s = cs1 @ (r, tag, Call rq g, t) # cs2" and rq: "rq \<noteq> Blocking"
    and "\<not> waits rq (held_keys (sessions (cs1 @ cs2)))" and "\<not> pool_exhausted rq (cs1 @ cs2)"
  shows "\<exists>s'. system_step X k E R s s' \<and> advances s s'"
proof -
  obtain rep t' d' where ex: "exec Fine rq t (sys_db s) = (rep, t', d')" by (metis prod_cases3)
  have "system_step X k E R s (s\<lparr> sys_db := d', sys_requests := cs1 @ (r, tag, g rep, t') # cs2 \<rparr>)"
    by (rule system_step.statement [OF cs rq assms(3) _ ex]) (simp add: fault_possible_def may_fault_def assms(4))
  then show ?thesis by (rule advancing) (simp_all add: request_ids_def cs)
qed

text \<open>Inside a transaction a request asks for no second connection and for no task.\<close>

lemma transaction_request:
  assumes "session_ok X Q d (Call rq g, t)" and "t \<noteq> None"
  shows "\<not> needs_connection rq \<and> rq \<noteq> Blocking"
proof -
  obtain v where v: "disciplined X Q (Call rq g) v" "view_ok X d t v" using assms(1) by (auto simp: session_ok_def)
  have "\<not> closed v" using v(2) assms(2) by (cases v) auto
  with v(1) show ?thesis by (cases rq) (auto simp: needs_connection_def)
qed

lemma held_by:
  "key \<in> set (held_keys (map session_of cs)) \<Longrightarrow>
     \<exists>c \<in> set cs. key \<in> set (map row_key (pending_rows (snd (session_of c))))"
  by (simp add: held_keys_def)

lemma held_keys_none:
  assumes "\<And>c. c \<in> set cs \<Longrightarrow> \<not> in_transaction c"
  shows "held_keys (sessions cs) = []"
proof -
  have "pending_rows (snd (session_of c)) = []" if "c \<in> set cs" for c
    using assms [OF that] by (cases c) (simp add: in_transaction_def)
  then have "held_keys (map session_of cs) = []" by (induction cs) simp_all
  then show ?thesis by (simp add: held_keys_sessions)
qed

lemma not_waiting: "\<not> waits rq []"
  by (simp add: waits_def split: request.splits tx_sql.splits)

lemma pool_free: "(\<And>c. c \<in> set cs \<Longrightarrow> \<not> in_transaction c) \<Longrightarrow> \<not> pool_exhausted rq cs"
  by (simp add: pool_exhausted_def MAX_CONNECTIONS_def filter_empty_conv [THEN iffD2])

lemma session_of_Call:
  "session_of c = (Call rq g', t) \<Longrightarrow> \<exists>r tag g. c = (r, tag, Call rq g, t)"
proof -
  assume c: "session_of c = (Call rq g', t)"
  obtain r tag p u where c': "c = (r, tag, p, u)" by (rule prod_cases4)
  with c show ?thesis by (cases p) auto
qed

lemma transaction_runs:
  assumes inv: "server_inv X Q (store_view s)"
    and c: "(r, tag, Call rq g, t) \<in> set (sys_requests s)" "t \<noteq> None"
  shows "\<exists>s'. system_step X k E R s s' \<and> advances s s'"
proof -
  have ok: "session_ok X Q (sys_db s) (session_of c)" if "c \<in> set (sys_requests s)" for c
    using inv that by (simp add: server_inv_def store_view_def)
  have run: ?thesis
    if c: "c = (r, tag, Call rq g, t)" "c \<in> set (sys_requests s)" and t: "t \<noteq> None"
      and w: "\<And>cs1 cs2. sys_requests s = cs1 @ c # cs2 \<Longrightarrow> \<not> waits rq (held_keys (sessions (cs1 @ cs2)))"
    for c r tag rq g t
  proof -
    obtain cs1 cs2 where cs: "sys_requests s = cs1 @ c # cs2" using c(2) by (metis split_list)
    have "\<not> needs_connection rq" "rq \<noteq> Blocking"
      using transaction_request [of X Q "sys_db s" rq "\<lambda>r. tagged tag (g r)" t] ok [OF c(2)] t c(1) by simp_all
    then show ?thesis using statement_runs [OF cs [unfolded c(1)]] w [OF cs] by (simp add: pool_exhausted_def)
  qed
  show ?thesis
  proof (cases "\<exists>cs1 cs2. sys_requests s = cs1 @ (r, tag, Call rq g, t) # cs2 \<and>
      waits rq (held_keys (sessions (cs1 @ cs2)))")
    case False
    then show ?thesis using run [OF refl c] by blast
  next
    case True
    then obtain cs1 cs2 where cs: "sys_requests s = cs1 @ (r, tag, Call rq g, t) # cs2"
        "waits rq (held_keys (sessions (cs1 @ cs2)))" by blast
    then obtain key where "key \<in> set (held_keys (map session_of (cs1 @ cs2)))"
      by (auto simp: waits_def held_keys_sessions split: request.splits tx_sql.splits)
    then obtain c' where c': "c' \<in> set (sys_requests s)"
        "key \<in> set (map row_key (pending_rows (snd (session_of c'))))"
      using held_by [of key "cs1 @ cs2"] cs(1) by force
    obtain rq' g' where h: "fst (session_of c') = Call rq' g'" "\<forall>held. \<not> waits rq' held"
      using holder_runs [OF ok [OF c'(1)] c'(2)] by blast
    have "session_of c' = (Call rq' g', snd (session_of c'))" using h(1) by (metis prod.collapse)
    then obtain r' tag' g'' where c'': "c' = (r', tag', Call rq' g'', snd (session_of c'))"
      using session_of_Call by blast
    have "snd (session_of c') \<noteq> None" using c'(2) by (cases "snd (session_of c')") simp_all
    with run [OF c'' c'(1)] h(2) show ?thesis by blast
  qed
qed

lemma progress:
  assumes inv: "system_inv X E capacity s" and busy: "\<not> idle s"
  shows "\<exists>s'. system_step X k E R s s' \<and> advances s s'"
proof -
  have srv: "server_inv X (answer_view X E) (store_view s)" and ln: "linked s"
    using inv by (simp_all add: system_inv_def)
  consider
      r where "r \<in> set (tasks (sys_limiter s))"
    | r tag a t where "(r, tag, Return a, t) \<in> set (sys_requests s)"
    | r tag g t where "tasks (sys_limiter s) = []" "(r, tag, Call Blocking g, t) \<in> set (sys_requests s)"
    | r tag rq g t where "(r, tag, Call rq g, t) \<in> set (sys_requests s)" "t \<noteq> None"
    | "sys_requests s \<noteq> []" "\<And>r tag p t. (r, tag, p, t) \<in> set (sys_requests s) \<Longrightarrow>
        t = None \<and> (\<exists>rq g. p = Call rq g \<and> rq \<noteq> Blocking)"
    using busy unfolding idle_def
    by (metis list.set_intros(1) neq_Nil_conv prog.exhaust)
  then show ?thesis
  proof cases
    case 1
    then have "system_step X k E R s (s\<lparr> sys_limiter := finish_task r (sys_limiter s) \<rparr>)"
      by (rule system_step.finish)
    then show ?thesis by (rule advancing) (simp_all add: request_ids_def)
  next
    case 2
    then obtain cs1 cs2 where cs: "sys_requests s = cs1 @ (r, tag, Return a, t) # cs2" by (metis split_list)
    show ?thesis
      by (rule advancing [OF system_step.respond [OF cs]]) (auto simp: request_ids_def cs)
  next
    case 3
    then have "request_linked (sys_limiter s) (r, tag, Call Blocking g, t)" using ln by (simp add: linked_def)
    then have "r \<in> fst ` set (in_flight (sys_limiter s))" "(r, Proving) \<notin> set (in_flight (sys_limiter s))"
      using 3(1) by (simp_all add: request_linked_def)
    then obtain st where st: "(r, st) \<in> set (in_flight (sys_limiter s))" "st \<noteq> Proving" by force
    show ?thesis
    proof (cases st)
      case Admitted
      with st 3 have "system_step X k E R s (s\<lparr> sys_limiter := spawn_task r (sys_limiter s) \<rparr>)"
        by (intro system_step.spawn) simp_all
      then show ?thesis by (rule advancing) (simp_all add: request_ids_def)
    next
      case Proved
      obtain cs1 cs2 where cs: "sys_requests s = cs1 @ (r, tag, Call Blocking g, t) # cs2"
        using 3(2) by (metis split_list)
      show ?thesis
        by (rule advancing [OF system_step.resume [OF cs]]) (use st Proved in \<open>simp_all add: request_ids_def cs\<close>)
    qed (use st in simp)
  next
    case 4
    then show ?thesis by (rule transaction_runs [OF srv])
  next
    case 5
    obtain c cs where cs: "sys_requests s = c # cs" using 5(1) by (cases "sys_requests s") auto
    then obtain r tag rq g where c: "c = (r, tag, Call rq g, None)" "rq \<noteq> Blocking"
      using 5(2) by (metis list.set_intros(1) prod_cases4)
    have free: "\<not> in_transaction c'" if "c' \<in> set cs" for c'
    proof -
      obtain r tag p t where c': "c' = (r, tag, p, t)" by (rule prod_cases4)
      from 5(2) [of r tag p t] that cs c' show ?thesis by (simp add: in_transaction_def)
    qed
    have "sys_requests s = [] @ (r, tag, Call rq g, None) # cs" using cs c(1) by simp
    from statement_runs [OF this c(2)] show ?thesis
      by (simp add: held_keys_none [OF free] not_waiting pool_free [OF free])
  qed
qed

subsection \<open>Draining\<close>

text \<open>
  A request's program gets smaller with every reply; programs branch over all replies, so the order
  is the well-founded one on such trees. A state is measured by its programs, then by the requests
  whose task is not spawned, then by the tasks.
\<close>

definition remaining :: "('a prog \<times> 'a prog) set" where
  "remaining = {(g rep, Call rq g) | g rep rq. True}"

lemma remaining_call [intro]: "(g rep, Call rq g) \<in> remaining"
  by (auto simp: remaining_def)

lemma wf_remaining: "wf remaining"
proof (rule wfUNIVI)
  fix P :: "'a prog \<Rightarrow> bool" and p
  assume step: "\<forall>x. (\<forall>y. (y, x) \<in> remaining \<longrightarrow> P y) \<longrightarrow> P x"
  show "P p"
    by (induction p) (rule step [rule_format], force simp: remaining_def)+
qed

definition programs :: "'body system \<Rightarrow> response option prog multiset" where
  "programs s = mset (map (\<lambda>(r, tag, p, t). p) (sys_requests s))"

definition unspawned :: "limiter \<Rightarrow> nat" where
  "unspawned l = length (filter (\<lambda>q. snd q = Admitted) (in_flight l))"

definition drain_order :: "('body system \<times> 'body system) set" where
  "drain_order = inv_image (mult1 remaining <*lex*> less_than <*lex*> less_than)
     (\<lambda>s. (programs s, unspawned (sys_limiter s), length (tasks (sys_limiter s))))"

lemma wf_drain_order: "wf drain_order"
  unfolding drain_order_def
  by (intro wf_inv_image wf_lex_prod wf_mult1 wf_remaining wf_less_than)

lemma drain_programs: "(programs s', programs s) \<in> mult1 remaining \<Longrightarrow> (s', s) \<in> drain_order"
  by (simp add: drain_order_def)

lemma programs_continue:
  assumes "sys_requests s = cs1 @ (r, tag, Call rq g, t) # cs2" "sys_requests s' = cs1 @ (r, tag, g rep, t') # cs2"
  shows "(programs s', programs s) \<in> mult1 remaining"
  by (rule mult1I [where a = "Call rq g" and K = "{#g rep#}"]) (auto simp: programs_def assms)

lemma programs_end:
  assumes "sys_requests s = cs1 @ (r, tag, p, t) # cs2" "sys_requests s' = cs1 @ cs2"
  shows "(programs s', programs s) \<in> mult1 remaining"
  by (rule mult1I [where a = p and K = "{#}"]) (auto simp: programs_def assms)

lemma filter_stage_less:
  "(r, Admitted) \<in> set xs \<Longrightarrow> st \<noteq> Admitted \<Longrightarrow>
     length (filter (\<lambda>q. snd q = Admitted) (map (\<lambda>q. if fst q = r then (r, st) else q) xs)) <
     length (filter (\<lambda>q. snd q = Admitted) xs)"
proof (induction xs)
  case (Cons x xs)
  have "length (filter (\<lambda>q. snd q = Admitted) (map (\<lambda>q. if fst q = r then (r, st) else q) ys)) \<le>
      length (filter (\<lambda>q. snd q = Admitted) ys)" for ys
    by (induction ys) (use Cons.prems(2) in auto)
  from this [of xs] Cons show ?case by (cases "(r, Admitted) \<in> set xs") auto
qed simp

lemma filter_stage_le:
  "st \<noteq> Admitted \<Longrightarrow>
     length (filter (\<lambda>q. snd q = Admitted) (map (\<lambda>q. if fst q = r then (r, st) else q) xs)) \<le>
     length (filter (\<lambda>q. snd q = Admitted) xs)"
  by (induction xs) auto

lemma step_drains:
  assumes "system_step X k E R s s'" and "\<not> sys_accepting s"
  shows "(s', s) \<in> drain_order"
  using assms(1)
proof cases
  case (statement cs1 r tag rq g t cs2 f rep t' d')
  show ?thesis by (rule drain_programs, rule programs_continue [OF statement(2)]) (simp add: statement(1))
next
  case (resume cs1 r tag g t cs2)
  show ?thesis by (rule drain_programs, rule programs_continue [OF resume(2)]) (simp add: resume(1))
next
  case (respond cs1 r tag a t cs2)
  show ?thesis by (rule drain_programs, rule programs_end [OF respond(2)]) (simp add: respond(1))
next
  case (drop cs1 r tag p t cs2)
  show ?thesis by (rule drain_programs, rule programs_end [OF drop(3)]) (simp add: drop(1))
next
  case (spawn r tag g t)
  have "unspawned (sys_limiter s') < unspawned (sys_limiter s)"
    using filter_stage_less [OF spawn(3), of Proving] by (simp add: unspawned_def set_stage_def spawn(1))
  then show ?thesis by (simp add: drain_order_def programs_def spawn(1))
next
  case (finish r)
  have "unspawned (sys_limiter s') \<le> unspawned (sys_limiter s)"
    using filter_stage_le [of Proved r "in_flight (sys_limiter s)"] by (simp add: unspawned_def set_stage_def finish(1))
  moreover have "length (tasks (sys_limiter s')) < length (tasks (sys_limiter s))"
    using finish(2) by (simp add: finish(1) length_filter_less)
  ultimately show ?thesis by (auto simp: drain_order_def programs_def finish(1))
qed (use assms(2) in simp_all)

lemma stays_closed: "system_step X k E R s s' \<Longrightarrow> \<not> sys_accepting s \<Longrightarrow> \<not> sys_accepting s'"
  by (erule system_stepE) simp_all

lemma draining_ends:
  assumes "\<not> sys_accepting s"
  shows "\<nexists>f. f 0 = s \<and> (\<forall>n. system_step X k E R (f n) (f (Suc n)))"
proof
  assume "\<exists>f. f 0 = s \<and> (\<forall>n. system_step X k E R (f n) (f (Suc n)))"
  then obtain f where f: "f 0 = s" "\<And>n. system_step X k E R (f n) (f (Suc n))" by blast
  have "\<not> sys_accepting (f n)" for n
  proof (induction n)
    case (Suc n)
    from stays_closed [OF f(2) Suc] show ?case .
  qed (simp add: f(1) assms)
  with f(2) step_drains have "\<forall>n. (f (Suc n), f n) \<in> drain_order" by blast
  with wf_drain_order show False unfolding wf_iff_no_infinite_down_chain by blast
qed

lemma stays_closed_run:
  "(system_step X k E R)\<^sup>*\<^sup>* s s' \<Longrightarrow> \<not> sys_accepting s \<Longrightarrow> \<not> sys_accepting s'"
  by (induction rule: rtranclp_induct) (use stays_closed in blast)+

text \<open>A run that cannot go on exists, and it has drained the server.\<close>

definition stopped ::
  "('pk, 'rng, 'z) externs_scheme \<Rightarrow> 'pk keys \<Rightarrow> 'body framework \<Rightarrow> regime \<Rightarrow> 'body system \<Rightarrow> bool" where
  "stopped X k E R s \<longleftrightarrow> (\<nexists>s'. system_step X k E R s s')"

lemma stops:
  assumes "\<not> sys_accepting s"
  shows "\<exists>s'. (system_step X k E R)\<^sup>*\<^sup>* s s' \<and> stopped X k E R s'"
proof -
  obtain s' where s': "(system_step X k E R)\<^sup>*\<^sup>* s s'"
    and min: "\<And>u. (u, s') \<in> drain_order \<Longrightarrow> \<not> (system_step X k E R)\<^sup>*\<^sup>* s u"
    using wfE_min [OF wf_drain_order, of s "{s'. (system_step X k E R)\<^sup>*\<^sup>* s s'}"] by auto
  have "\<not> sys_accepting s'" using stays_closed_run [OF s' assms] .
  with min s' step_drains have "stopped X k E R s'"
    unfolding stopped_def by (meson rtranclp.rtrancl_into_rtrancl)
  with s' show ?thesis by blast
qed

lemma stopped_drained:
  assumes inv: "system_inv X E capacity s" and st: "stopped X k E R s"
  shows "idle s \<and> available (sys_limiter s) = capacity"
proof -
  have i: "idle s" using progress [OF inv] st by (auto simp: stopped_def)
  then have "in_flight (sys_limiter s) = []" using inv by (simp add: system_inv_def linked_def request_ids_def idle_def)
  with i inv show ?thesis by (simp add: system_inv_def permits_ok_def)
qed

text \<open>While no client goes away every request in progress gets its response.\<close>

lemma step_keeps_requests:
  assumes "system_step X k E R s s'" and "\<not> dropping R"
  shows "request_ids s \<union> fst ` set (sys_answered s) \<subseteq> request_ids s' \<union> fst ` set (sys_answered s')"
  using assms(1)
proof cases
  case (arrive r tg b rng)
  have "request_ids s' = insert r (request_ids s)" "sys_answered s' = sys_answered s"
    by (simp_all add: arrive(1) request_ids_def arrived_def)
  then show ?thesis by (simp only: Un_insert_left subset_insertI)
next
  case (statement cs1 r tag rq g t cs2 f rep t' d')
  have "request_ids s' = request_ids s" unfolding request_ids_def statement(2) by (simp add: statement(1))
  then show ?thesis by (simp add: statement(1))
next
  case (resume cs1 r tag g t cs2)
  have "request_ids s' = request_ids s" unfolding request_ids_def resume(2) by (simp add: resume(1))
  then show ?thesis by (simp add: resume(1))
next
  case (respond cs1 r tag a t cs2)
  have "request_ids s = insert r (request_ids s')" unfolding request_ids_def respond(2) by (simp add: respond(1))
  then show ?thesis by (simp add: respond(1))
qed (use assms(2) in \<open>simp_all add: request_ids_def signalled_def Let_def\<close>)

lemma requests_answered:
  assumes "(system_step X k E R)\<^sup>*\<^sup>* s s'" and "\<not> dropping R"
  shows "request_ids s \<subseteq> request_ids s' \<union> fst ` set (sys_answered s')"
proof -
  have "request_ids s \<union> fst ` set (sys_answered s) \<subseteq> request_ids s' \<union> fst ` set (sys_answered s')"
    using assms(1)
  proof (induction rule: rtranclp_induct)
    case (step t u)
    from step(3) step_keeps_requests [OF step(2) assms(2)] show ?case by (rule order_trans)
  qed simp
  then show ?thesis by blast
qed

end
