(* ===== verification/Runs.thy ===== *)
theory Runs
  imports Shutdown
begin

text \<open>
  Runs of the whole server that exist: a request served while no other is in progress, and requests
  of the proving route whose clients go away as soon as the task is spawned.
\<close>

subsection \<open>A request served alone\<close>

text \<open>
  The other requests in progress are outside a transaction and no task but the request's own is
  awaited. The request then ends with the same result as when its program is run on a connection.
\<close>

definition unlocked :: "'body open_request list \<Rightarrow> bool" where
  "unlocked cs \<longleftrightarrow> (\<forall>c \<in> set cs. \<not> in_transaction c)"

lemma unlocked_free:
  "unlocked cs \<Longrightarrow> \<not> waits rq (held_keys (sessions cs)) \<and> \<not> pool_exhausted rq cs"
  using held_keys_none [of cs] pool_free [of cs rq] not_waiting [of rq] by (auto simp: unlocked_def)

lemma unlocked_simps [simp]:
  "unlocked []" "unlocked (cs @ cs') \<longleftrightarrow> unlocked cs \<and> unlocked cs'"
  "unlocked (c # cs) \<longleftrightarrow> \<not> in_transaction c \<and> unlocked cs" "\<not> in_transaction (r, tag, p, None)"
  by (simp_all add: unlocked_def ball_Un) (simp_all add: in_transaction_def)

lemma statement_alone:
  assumes s: "sys_requests s = cs1 @ (r, tag, Call rq g, tx c) # cs2" "unlocked (cs1 @ cs2)" "sys_db s = db c"
    and rq: "rq \<noteq> Blocking" and f: "faults c = [] \<or> failing R" and 1: "conn_exec rq c = (rep, cn)"
  shows "system_step X k E R s (s\<lparr> sys_db := db cn, sys_requests := cs1 @ (r, tag, g rep, tx cn) # cs2 \<rparr>)"
proof (rule system_step.statement [OF s(1) rq])
  show "exec (next_fault (faults c)) rq (tx c) (sys_db s) = (rep, tx cn, db cn)"
    using 1 s(3) by (auto simp: conn_exec_def split: prod.splits)
  show "fault_possible R rq (cs1 @ cs2) (next_fault (faults c))"
    using f unlocked_free [OF s(2), of rq] by (auto simp: fault_possible_def may_fault_def next_fault_def)
qed (use unlocked_free [OF s(2)] in blast)

definition staged :: "limiter \<Rightarrow> stage \<Rightarrow> nat \<Rightarrow> limiter" where
  "staged l st r = l\<lparr> in_flight := [(r, st)] \<rparr>"

lemma staged_simps [simp]:
  "in_flight (staged l st r) = [(r, st)]" "tasks (staged l st r) = tasks l" "available (staged l st r) = available l"
  "staged (staged l st r) st' r = staged l st' r"
  by (simp_all add: staged_def)

lemma task_alone:
  assumes s: "sys_requests s = cs1 @ (r, tag, Call Blocking g, t) # cs2" "sys_limiter s = staged l st r" "st \<noteq> Proving"
    and r: "r \<notin> set (tasks l)"
  shows "(system_step X k E R)\<^sup>*\<^sup>* s
    (s\<lparr> sys_limiter := staged l Proved r, sys_requests := cs1 @ (r, tag, g (Result Done), t) # cs2 \<rparr>)"
proof -
  let ?s1 = "s\<lparr> sys_limiter := staged l Proved r \<rparr>"
  have "(system_step X k E R)\<^sup>*\<^sup>* s ?s1"
  proof (cases st)
    case Admitted
    let ?s2 = "s\<lparr> sys_limiter := spawn_task r (staged l st r) \<rparr>"
    have "system_step X k E R s ?s2"
      using system_step.spawn [of r tag g t s X k E R] s Admitted by simp
    moreover have "system_step X k E R ?s2 (?s2\<lparr> sys_limiter := finish_task r (sys_limiter ?s2) \<rparr>)"
      by (rule system_step.finish) simp
    moreover have "finish_task r (spawn_task r (staged l st r)) = staged l Proved r"
      using r by (cases l) (auto simp: set_stage_def staged_def filter_id_conv)
    ultimately show ?thesis by simp
  next
    case Proved
    then have "s = ?s1" using s(2) by (cases s) simp
    then show ?thesis by (metis rtranclp.rtrancl_refl)
  qed (use s(3) in simp)
  moreover have "system_step X k E R ?s1 (?s1\<lparr> sys_requests := cs1 @ (r, tag, g (Result Done), t) # cs2 \<rparr>)"
    by (rule system_step.resume) (use s in \<open>simp_all add: staged_def\<close>)
  ultimately show ?thesis by simp
qed

lemma program_alone:
  assumes "run_on conn_exec p c = (a, c')" and "faults c = [] \<or> failing R"
    and "sys_requests s = cs1 @ (r, tag, p, tx c) # cs2" and "sys_db s = db c" and "sys_limiter s = l"
    and "never_blocks p \<or> l = staged l st r \<and> st \<noteq> Proving" and "r \<notin> set (tasks l)" and "unlocked (cs1 @ cs2)"
  shows "\<exists>l'. (l' = l \<or> l' = staged l Proved r \<and> l = staged l st r) \<and> (system_step X k E R)\<^sup>*\<^sup>* s
    (s\<lparr> sys_db := db c', sys_limiter := l', sys_requests := cs1 @ (r, tag, Return a, tx c') # cs2 \<rparr>)"
  using assms
proof (induction p arbitrary: c s l st)
  case (Return x)
  then have "s\<lparr> sys_db := db c', sys_limiter := l, sys_requests := cs1 @ (r, tag, Return a, tx c') # cs2 \<rparr> = s"
    by (cases s) simp
  then show ?case by (metis rtranclp.rtrancl_refl)
next
  case (Call rq g)
  obtain rep cn where 1: "conn_exec rq c = (rep, cn)" by (rule prod.exhaust)
  have faults: "faults cn = [] \<or> failing R"
    using Call.prems(2) 1 by (auto simp: conn_exec_def split: prod.splits)
  have rest: "run_on conn_exec (g rep) cn = (a, c')" using Call.prems(1) 1 by simp
  show ?case
  proof (cases "rq = Blocking")
    case False
    let ?s = "s\<lparr> sys_db := db cn, sys_requests := cs1 @ (r, tag, g rep, tx cn) # cs2 \<rparr>"
    have "system_step X k E R s ?s"
      by (rule statement_alone [OF Call.prems(3,8,4) False Call.prems(2) 1])
    moreover obtain l' where "l' = l \<or> l' = staged l Proved r \<and> l = staged l st r" "(system_step X k E R)\<^sup>*\<^sup>* ?s
        (?s\<lparr> sys_db := db c', sys_limiter := l', sys_requests := cs1 @ (r, tag, Return a, tx c') # cs2 \<rparr>)"
      using Call.IH [OF rangeI rest faults, of ?s l st] Call.prems(5-8) by auto
    ultimately show ?thesis by (auto intro: converse_rtranclp_into_rtranclp)
  next
    case True
    have cn: "rep = Result Done" "tx cn = tx c" "db cn = db c" using 1 True by (auto simp: conn_exec_def exec_def)
    have l: "l = staged l st r" "st \<noteq> Proving" using Call.prems(6) True by auto
    let ?s = "s\<lparr> sys_limiter := staged l Proved r, sys_requests := cs1 @ (r, tag, g rep, tx c) # cs2 \<rparr>"
    have "(system_step X k E R)\<^sup>*\<^sup>* s ?s"
      using task_alone [of s cs1 r tag g "tx c" cs2 l st X k E R] Call.prems(3,5,7) l True cn(1) by simp
    moreover obtain l' where "l' = staged l Proved r" "(system_step X k E R)\<^sup>*\<^sup>* ?s
        (?s\<lparr> sys_db := db c', sys_limiter := l', sys_requests := cs1 @ (r, tag, Return a, tx c') # cs2 \<rparr>)"
      using Call.IH [OF rangeI rest faults, of ?s "staged l Proved r" Proved] Call.prems(4,7,8) cn by auto
    ultimately show ?thesis using l(1) by (auto intro: rtranclp_trans)
  qed
qed

lemma request_alone:
  assumes acc: "sys_accepting s" and others: "unlocked (sys_requests s)" "in_flight (sys_limiter s) = []"
    and free: "0 < available (sys_limiter s)" and r: "r \<notin> known_ids s" and f: "fs = [] \<or> failing R"
    and run: "run_on conn_exec (respond_to X k E (sys_limiter s) tg b rng) (connected fs (sys_db s)) = (a, c')"
  shows "(system_step X k E R)\<^sup>*\<^sup>* s (s\<lparr> sys_db := db c', sys_answered := sys_answered s @ [(r, (tg, b), a)] \<rparr>)"
proof -
  let ?l = "sys_limiter s" and ?p = "respond_to X k E (sys_limiter s) tg b rng" and ?cs = "sys_requests s"
  let ?l1 = "if metered tg then try_acquire r ?l else ?l"
  let ?s1 = "s\<lparr> sys_limiter := ?l1, sys_requests := ?cs @ [(r, (tg, b), ?p, None)] \<rparr>"
  let ?s2 = "\<lambda>l. ?s1\<lparr> sys_db := db c', sys_limiter := l, sys_requests := ?cs @ [(r, (tg, b), Return a, tx c')] \<rparr>"
  have fresh: "r \<notin> set (tasks ?l)" using r by (simp add: known_ids_def used_ids_def)
  have l1: "metered tg \<and> ?l1 = staged (?l\<lparr> available := available ?l - 1 \<rparr>) Admitted r \<or>
      never_blocks ?p \<and> ?l1 = ?l"
    using respond_never_blocks [of tg X k E ?l b rng] free others(2)
    by (simp add: try_acquire_def staged_def)
  have "system_step X k E R s ?s1"
    using system_step.arrive [OF acc r, of X k E R tg b rng] by (simp add: arrived_def)
  moreover have "\<exists>l'. (l' = ?l1 \<or> l' = staged ?l1 Proved r \<and> ?l1 = staged ?l1 Admitted r) \<and>
      (system_step X k E R)\<^sup>*\<^sup>* ?s1 (?s2 l')"
    by (rule program_alone [OF run]) (use l1 f fresh others(1) in \<open>auto simp: connected_def\<close>)
  then obtain l' where l': "l' = ?l1 \<or> l' = staged ?l1 Proved r \<and> ?l1 = staged ?l1 Admitted r"
    "(system_step X k E R)\<^sup>*\<^sup>* ?s1 (?s2 l')"
    by blast
  moreover have "system_step X k E R (?s2 l') (s\<lparr> sys_db := db c', sys_limiter := ended r l', sys_requests := ?cs,
      sys_answered := sys_answered s @ [(r, (tg, b), a)] \<rparr>)"
    using system_step.respond [of "?s2 l'" ?cs r "(tg, b)" a "tx c'" "[]" X k E R] by simp
  moreover have "ended r l' = ?l"
    using l'(1) l1 free others(2) by (cases ?l) (auto simp: ended_def release_def staged_def)
  ultimately have "(system_step X k E R)\<^sup>*\<^sup>* s (s\<lparr> sys_db := db c', sys_limiter := ?l, sys_requests := ?cs,
      sys_answered := sys_answered s @ [(r, (tg, b), a)] \<rparr>)"
    by (simp add: converse_rtranclp_into_rtranclp rtranclp.rtrancl_into_rtrancl)
  then show ?thesis by (cases s) simp
qed

subsection \<open>Requests dropped while their task runs\<close>

text \<open>
  On an issuer whose leaves are published, a proving request with any secret reads the leaves and the
  root and then spawns its task; whether the secret is a member's is found out in the task.
\<close>

definition published_now :: "('pk, 'rng, 'z) externs_scheme \<Rightarrow> database \<Rightarrow> string \<Rightarrow> bool" where
  "published_now X d i \<longleftrightarrow> abs_leaves X d i \<noteq> [] \<and> abs_published X d i = Some (root_of (abs_leaves X d i))"

lemma proving_reaches_task:
  assumes d: "store_ok X d" "published_now X d i" and l: "0 < available l"
    and E: "routed tg = Handler (Prove p)" "path_param E p = Inr i" "prove_body E b = Inr req" "parse_fr_hex X (req_secret req) = Inr secret"
  shows "\<exists>k1 rep1 k2 rep2 g. respond_to X k E l tg b rng = Call (Pool (SelectLeaves i)) k1 \<and>
    exec Fine (Pool (SelectLeaves i)) None d = (rep1, None, d) \<and> k1 rep1 = Call (Pool (SelectRoot i)) k2 \<and>
    exec Fine (Pool (SelectRoot i)) None d = (rep2, None, d) \<and> k2 rep2 = Call Blocking g"
proof -
  have row: "(case Option.bind (map_of (issuer_rows d) i) (\<lambda>r. r) of
        Some s \<Rightarrow> try_r (from_hex X s) (\<lambda>f. Inr (Some f)) | None \<Rightarrow> Inr None) =
      (Inr (Some (root_of (abs_leaves X d i))) :: store_error + fr option)"
    using published_row [OF d(1), of i] d(2) by (simp add: published_now_def optional_def)
  show ?thesis
    using d(2) l from_leaves_tree_of [OF abs_leaves_bound [OF d(1), of i]]
    by (simp add: respond_to_serve serve_def route_layer_def limit_concurrent_proofs_def unmetered_def extract_call_def E handle_def finish_def
        holder_prove_def store_call_def bind_ok_def prog_map_err_def stored_leaves_def published_root_def
        query_def exec_def sql_eval_def select_leaves [OF d(1)] strings_def collect_rows [OF d(1)] row value_or_def optional_def
        prove_published_def spawn_blocking_def published_now_def)
qed

text \<open>One such request: it arrives, its task starts, its client goes away, the task runs on.\<close>

lemma dropped_proof:
  assumes s: "sys_accepting s" "sys_requests s = []" "in_flight (sys_limiter s) = []"
      "available (sys_limiter s) = Suc c" "r \<notin> known_ids s" "dropping R"
    and d: "store_ok X (sys_db s)" "published_now X (sys_db s) i"
    and E: "routed tg = Handler (Prove p)" "path_param E p = Inr i" "prove_body E b = Inr req" "parse_fr_hex X (req_secret req) = Inr secret"
  shows "(system_step X k E R)\<^sup>*\<^sup>* s
    (s\<lparr> sys_limiter := (sys_limiter s)\<lparr> tasks := tasks (sys_limiter s) @ [r] \<rparr> \<rparr>)"
proof -
  let ?S = "system_step X k E R" and ?l = "sys_limiter s" and ?l1 = "try_acquire r (sys_limiter s)" and ?tag = "(tg, b)"
  obtain k1 rep1 k2 rep2 g where p: "respond_to X k E ?l tg b undefined = Call (Pool (SelectLeaves i)) k1"
      "exec Fine (Pool (SelectLeaves i)) None (sys_db s) = (rep1, None, sys_db s)" "k1 rep1 = Call (Pool (SelectRoot i)) k2"
      "exec Fine (Pool (SelectRoot i)) None (sys_db s) = (rep2, None, sys_db s)" "k2 rep2 = Call Blocking g"
    using proving_reaches_task [OF d _ E, of ?l k undefined] s(4) by auto
  let ?at = "\<lambda>l q. s\<lparr> sys_limiter := l, sys_requests := [(r, ?tag, q, None)] \<rparr>"
  have l1: "in_flight ?l1 = [(r, Admitted)]" "tasks ?l1 = tasks ?l" using s(3,4) by (simp_all add: try_acquire_def)
  have statement: "?S (?at l (Call rq q)) (?at l (q rep))"
    if "exec Fine rq None (sys_db s) = (rep, None, sys_db s)" "rq \<noteq> Blocking" for l rq q rep
    using system_step.statement [of "?at l (Call rq q)" "[]" r ?tag rq q None "[]" R Fine rep None "sys_db s" X k E] that
    by (simp add: sessions_def not_waiting fault_possible_def may_fault_def pool_exhausted_def MAX_CONNECTIONS_def)
  have "?S s (?at ?l1 (Call (Pool (SelectLeaves i)) k1))"
    using system_step.arrive [OF s(1,5), of X k E R tg b undefined] s(2) p(1) E(1) by (simp add: arrived_def metered_iff)
  moreover have "?S (?at ?l1 (Call (Pool (SelectLeaves i)) k1)) (?at ?l1 (k1 rep1))"
    by (rule statement [OF p(2)]) simp
  moreover have "?S (?at ?l1 (k1 rep1)) (?at ?l1 (k2 rep2))"
    unfolding p(3) by (rule statement [OF p(4)]) simp
  moreover have "?S (?at ?l1 (k2 rep2)) (?at (spawn_task r ?l1) (k2 rep2))"
    using system_step.spawn [of r ?tag g None "?at ?l1 (k2 rep2)" X k E R] l1(1) p(5) by (cases s) simp
  moreover have "?S (?at (spawn_task r ?l1) (k2 rep2))
      (s\<lparr> sys_limiter := ended r (spawn_task r ?l1), sys_requests := [] \<rparr>)"
    using system_step.drop [OF s(6), of "?at (spawn_task r ?l1) (k2 rep2)" "[]" r ?tag "k2 rep2" None "[]" X k E] by simp
  moreover have "ended r (spawn_task r ?l1) = ?l\<lparr> tasks := tasks ?l @ [r] \<rparr>"
    using s(3,4) by (cases ?l) (simp add: ended_def release_def set_stage_def try_acquire_def)
  ultimately show ?thesis
    using s(2) by (cases s) (simp add: converse_rtranclp_into_rtranclp)
qed

lemma dropped_proofs:
  fixes E :: "'body framework"
  assumes "0 < capacity" and "dropping R" and d: "store_ok X d" "published_now X d i"
    and E: "routed tg = Handler (Prove p)" "path_param E p = Inr i" "prove_body E b = Inr req" "parse_fr_hex X (req_secret req) = Inr secret"
  shows "(system_step X k E R)\<^sup>*\<^sup>* (started d capacity)
    ((started d capacity)\<lparr> sys_limiter := (new_limiter capacity)\<lparr> tasks := [0..<n] \<rparr> \<rparr>)"
proof (induction n)
  case 0
  show ?case by (simp add: started_def new_limiter_def)
next
  case (Suc n)
  let ?s = "(started d capacity)\<lparr> sys_limiter := (new_limiter capacity)\<lparr> tasks := [0..<n] \<rparr> \<rparr> :: 'body system"
  have s: "sys_accepting ?s" "sys_requests ?s = []" "in_flight (sys_limiter ?s) = []"
      "available (sys_limiter ?s) = Suc (capacity - 1)" "n \<notin> known_ids ?s" "sys_db ?s = d"
    using assms(1) by (simp_all add: started_def new_limiter_def known_ids_def request_ids_def used_ids_def)
  from dropped_proof [OF s(1-5) assms(2) _ _ E, of k] d have "(system_step X k E R)\<^sup>*\<^sup>* ?s
      (?s\<lparr> sys_limiter := (sys_limiter ?s)\<lparr> tasks := tasks (sys_limiter ?s) @ [n] \<rparr> \<rparr>)"
    unfolding s(6) by blast
  with Suc show ?case by simp
qed

subsection \<open>A publication overtaken by a newer one\<close>

text \<open>
  \<open>publish\<close> reads the leaves and stores the root in separate statements. When a leaf is added and
  published between the two, the older root overwrites the newer one.
\<close>

definition publish_answer :: "('pk, 'rng, 'z) externs_scheme \<Rightarrow> fr list \<Rightarrow> response" where
  "publish_answer X ls = json_response 200 (root_json \<lparr> rr_root = hex_encode X (fr_be (root_of ls)) \<rparr>)"

lemma root_answer_publish: "root_answer X (root_of ls) = Some (publish_answer X ls)"
  by (simp add: root_answer_def publish_answer_def respond_def)

context hex_codec
begin

text \<open>Served alone, without failures, among requests that are outside a transaction.\<close>

lemma publish_alone:
  assumes s: "sys_accepting s" "unlocked (sys_requests s)" "in_flight (sys_limiter s) = []"
      "0 < available (sys_limiter s)" "r \<notin> known_ids s"
    and d: "store_ok X (sys_db s)" "abs_leaves X (sys_db s) i = ls" "ls \<noteq> []" and E: "routed tp = Handler (Publish p)" "path_param E p = Inr i"
  shows "\<exists>d'. store_ok X d' \<and> abs_leaves X d' i = ls \<and> (system_step X k E R)\<^sup>*\<^sup>* s
    (s\<lparr> sys_db := d', sys_answered := sys_answered s @ [(r, (tp, b), Some (publish_answer X ls))] \<rparr>)"
proof -
  obtain res c where run: "run_on conn_exec (publish X i) (connected [] (sys_db s)) = (res, c)" by (rule prod.exhaust)
  have c: "store_ok X (db c)" "abs_leaves X (db c) i = ls" "res = Inr \<lparr> rr_root = hex_encode X (fr_be (root_of ls)) \<rparr>"
    using store_publish_result [OF _ run] connected_ok [OF d(1)] d(2,3) by (auto simp: conn_ok_def)
  have "run_on conn_exec (respond_to X k E (sys_limiter s) tp b undefined) (connected [] (sys_db s)) =
      (Some (publish_answer X ls), c)"
    using run c(3) by (simp add: respond_to_serve serve_def route_layer_def unmetered_def extract_call_def E handle_def run_finish respond_def publish_answer_def)
  from request_alone [OF s _ this, of R] c show ?thesis by blast
qed

lemma add_leaf_alone:
  assumes s: "sys_accepting s" "unlocked (sys_requests s)" "in_flight (sys_limiter s) = []"
      "0 < available (sys_limiter s)" "r \<notin> known_ids s"
    and d: "store_ok X (sys_db s)" "abs_leaves X (sys_db s) i = ls" "length ls < CAPACITY"
    and E: "routed ta = Handler (AddLeaf p)" "path_param E p = Inr i" "leaf_body E b = Inr h" "parse_fr_hex X h = Inr f"
  shows "\<exists>d'. store_ok X d' \<and> abs_leaves X d' i = ls @ [f] \<and> (system_step X k E R)\<^sup>*\<^sup>* s
    (s\<lparr> sys_db := d', sys_answered := sys_answered s @
      [(r, (ta, b), Some (leaf_answer (length ls) (length ls + 1)))] \<rparr>)"
proof -
  obtain res c where run: "run_on conn_exec (issuer_add_leaf X i h) (connected [] (sys_db s)) = (res, c)"
    by (rule prod.exhaust)
  have c: "store_ok X (db c)" "abs_leaves X (db c) i = ls @ [f]"
      "res = Inr \<lparr> alr_position = length ls, alr_count = length ls + 1 \<rparr>"
    using store_add_leaf_result [OF _ run] connected_ok [OF d(1)] d(2,3) E(4) by (auto simp: conn_ok_def)
  have "run_on conn_exec (respond_to X k E (sys_limiter s) ta b undefined) (connected [] (sys_db s)) =
      (Some (leaf_answer (length ls) (length ls + 1)), c)"
    using run c(3) by (simp add: respond_to_serve serve_def route_layer_def unmetered_def extract_call_def E handle_def run_finish respond_def leaf_answer_def)
  from request_alone [OF s _ this, of R] c show ?thesis by blast
qed

text \<open>\<open>publish\<close> has read the leaves.\<close>

lemma publish_starts:
  assumes s: "sys_accepting s" "sys_requests s = []" "r \<notin> known_ids s"
    and d: "store_ok X (sys_db s)" "abs_leaves X (sys_db s) i = ls" "ls \<noteq> []" and E: "routed tp = Handler (Publish p)" "path_param E p = Inr i"
  shows "(system_step X k E R)\<^sup>*\<^sup>* s (s\<lparr> sys_requests := [(r, (tp, b), publish_rest X i ls, None)] \<rparr>)"
proof -
  let ?rows = "Result (Rows (map row_commitment (rows_of i (leaf_rows (sys_db s)))))"
  obtain g where g: "handle X k (CallPublish i) = Call (Pool (SelectLeaves i)) g"
      "exec Fine (Pool (SelectLeaves i)) None (sys_db s) = (?rows, None, sys_db s)" "g ?rows = publish_rest X i ls"
    using publish_first_request [of "sys_db s" i k] d by auto
  have "respond_to X k E (sys_limiter s) tp b undefined = Call (Pool (SelectLeaves i)) g"
    using g(1) by (simp add: respond_to_serve serve_def route_layer_def unmetered_def extract_call_def E)
  then have "system_step X k E R s (s\<lparr> sys_requests := [(r, (tp, b), Call (Pool (SelectLeaves i)) g, None)] \<rparr>)"
    using system_step.arrive [OF s(1,3), of X k E R tp b undefined] s(2) E(1) by (simp add: arrived_def metered_iff)
  moreover have "system_step X k E R (s\<lparr> sys_requests := [(r, (tp, b), Call (Pool (SelectLeaves i)) g, None)] \<rparr>)
      (s\<lparr> sys_requests := [(r, (tp, b), publish_rest X i ls, None)] \<rparr>)"
    using statement_alone [of "s\<lparr> sys_requests := [(r, (tp, b), Call (Pool (SelectLeaves i)) g, None)] \<rparr>" "[]"
        r "(tp, b)" "Pool (SelectLeaves i)" g "connected [] (sys_db s)" "[]" R ?rows "connected [] (sys_db s)" X k E] g(2,3)
    by (simp add: conn_exec_def connected_def next_fault_def)
  ultimately show ?thesis by simp
qed

lemma publish_rest_ends:
  assumes s: "sys_requests s = [(r, (tp, b), publish_rest X i ls, None)]" "in_flight (sys_limiter s) = []"
      "r \<notin> set (tasks (sys_limiter s))" and d: "store_ok X (sys_db s)"
  shows "\<exists>d'. abs_leaves X d' = abs_leaves X (sys_db s) \<and> abs_published X d' i = Some (root_of ls) \<and>
    (system_step X k E R)\<^sup>*\<^sup>* s (s\<lparr> sys_db := d', sys_requests := [],
      sys_answered := sys_answered s @ [(r, (tp, b), Some (publish_answer X ls))] \<rparr>)"
proof -
  obtain c where c: "run_on conn_exec (publish_rest X i ls) (connected [] (sys_db s)) = (Some (publish_answer X ls), c)"
      "abs_leaves X (db c) = abs_leaves X (sys_db s)" "abs_published X (db c) i = Some (root_of ls)"
    using run_publish_rest [of "connected [] (sys_db s)" i ls] connected_ok [OF d] by (auto simp: root_answer_publish)
  have nb: "never_blocks (publish_rest X i ls)"
    unfolding publish_rest_def set_published_root_def ensure_issuer_def never_blocks_def
    by (intro issues_finish footprint) simp_all
  let ?s1 = "s\<lparr> sys_db := db c, sys_requests := [(r, (tp, b), Return (Some (publish_answer X ls)), tx c)] \<rparr>"
  have "sys_limiter s \<noteq> staged (sys_limiter s) Admitted r"
    using s(2) staged_simps(1) by (metis not_Cons_self2)
  then have "(system_step X k E R)\<^sup>*\<^sup>* s ?s1"
    using program_alone [OF c(1), of R s "[]" r "(tp, b)" "[]" "sys_limiter s" Admitted X k E] s nb
    by (cases s) (simp add: connected_def)
  moreover have "system_step X k E R ?s1 (s\<lparr> sys_db := db c, sys_requests := [],
      sys_answered := sys_answered s @ [(r, (tp, b), Some (publish_answer X ls))] \<rparr>)"
    using system_step.respond [of ?s1 "[]" r "(tp, b)" "Some (publish_answer X ls)" "tx c" "[]" X k E R] s(2)
    by (cases s) (simp add: ended_def)
  ultimately show ?thesis using c(2,3) by (blast intro: rtranclp.rtrancl_into_rtrancl)
qed

lemma overtaken_publication:
  assumes "0 < capacity" and d: "store_ok X d" and ls: "abs_leaves X d i = ls" "ls \<noteq> []" "length ls < CAPACITY"
    and E: "routed ta = Handler (AddLeaf p)" "routed tp = Handler (Publish p)" "path_param E p = Inr i" "leaf_body E b = Inr h" "parse_fr_hex X h = Inr f"
  shows "\<exists>s. (system_step X k E R)\<^sup>*\<^sup>* (started d capacity) s \<and> sys_requests s = [] \<and>
    sys_answered s =
      [(1, (ta, b), Some (leaf_answer (length ls) (length ls + 1))),
       (2, (tp, b), Some (publish_answer X (ls @ [f]))),
       (0, (tp, b), Some (publish_answer X ls))] \<and>
    abs_leaves X (sys_db s) i = ls @ [f] \<and> abs_published X (sys_db s) i = Some (root_of ls)"
proof -
  let ?S = "(system_step X k E R)\<^sup>*\<^sup>*" and ?l = "new_limiter capacity"
  let ?state = "\<lambda>d cs as. \<lparr> sys_db = d, sys_limiter = ?l, sys_requests = cs, sys_answered = as, sys_signals = [],
    sys_accepting = True \<rparr>"
  let ?old = "[(0, (tp, b), publish_rest X i ls, None)]"
  let ?added = "(1, (ta, b), Some (leaf_answer (length ls) (length ls + 1)))"
  let ?newer = "(2, (tp, b), Some (publish_answer X (ls @ [f])))"
  note ids = known_ids_def request_ids_def used_ids_def new_limiter_def
  have 1: "?S (?state d [] []) (?state d ?old [])"
    using publish_starts [of "?state d [] []" 0 i ls tp p E k R b] d ls(1,2) E(2,3) by (simp add: ids)
  obtain d2 where 2: "store_ok X d2" "abs_leaves X d2 i = ls @ [f]"
      "?S (?state d ?old []) (?state d2 ?old [?added])"
    using add_leaf_alone [of "?state d ?old []" 1 i ls ta p E b h f k R] assms by (auto simp: ids)
  obtain d3 where 3: "store_ok X d3" "abs_leaves X d3 i = ls @ [f]"
      "?S (?state d2 ?old [?added]) (?state d3 ?old [?added, ?newer])"
    using publish_alone [of "?state d2 ?old [?added]" 2 i "ls @ [f]" tp p E k R b] 2(1,2) assms(1) E(2,3) by (auto simp: ids)
  obtain d4 where 4: "abs_leaves X d4 = abs_leaves X d3" "abs_published X d4 i = Some (root_of ls)"
      "?S (?state d3 ?old [?added, ?newer])
        (?state d4 [] [?added, ?newer, (0, (tp, b), Some (publish_answer X ls))])"
    using publish_rest_ends [of "?state d3 ?old [?added, ?newer]" 0 tp b i ls k E R] 3(1) by (auto simp: ids)
  from rtranclp_trans [OF rtranclp_trans [OF rtranclp_trans [OF 1 2(3)] 3(3)] 4(3)]
  have "?S (started d capacity) (?state d4 [] [?added, ?newer, (0, (tp, b), Some (publish_answer X ls))])"
    unfolding started_def .
  moreover have "abs_leaves X d4 i = ls @ [f]" using 3(2) 4(1) by simp
  ultimately show ?thesis using 4(2)
    by (intro exI [of _ "?state d4 [] [?added, ?newer, (0, (tp, b), Some (publish_answer X ls))]"])
      (simp del: One_nat_def)
qed

end

end
