(* ===== verification/Responsiveness.thy ===== *)
theory Responsiveness
  imports Runs
begin

text \<open>
  The budget meters the proving path only. Whatever runs or waits, a request to another path that
  does not add a leaf is served to its end while nothing else moves, as long as a connection is free:
  its statements run on the pool, and such a statement waits neither for a permit nor for a lock.
\<close>

subsection \<open>Programs on the pool\<close>

definition pooled :: "request \<Rightarrow> bool" where
  "pooled rq \<longleftrightarrow> (\<exists>q. rq = Pool q)"

lemma issues_mono: "issues P p \<Longrightarrow> (\<And>rq. P rq \<Longrightarrow> Q rq) \<Longrightarrow> issues Q p"
  by (induction p) auto

lemma reads_pooled: "issues is_read p \<Longrightarrow> issues pooled p"
  by (erule issues_mono) (auto simp: is_read_def pooled_def split: request.splits)

text \<open>A statement on the pool leaves the session outside a transaction.\<close>

lemma pooled_statement:
  assumes "pooled rq" and "conn_exec rq c = (rep, cn)" and "tx c = None" and "faults c = []"
  shows "tx cn = None \<and> faults cn = [] \<and> exec Fine rq None (db c) = (rep, None, db cn)"
proof -
  obtain q where rq: "rq = Pool q" using assms(1) by (auto simp: pooled_def)
  have "\<exists>rep d'. exec Fine (Pool q) None (db c) = (rep, None, d')" by (simp add: exec_def split: option.splits)
  with assms(2-4) rq show ?thesis by (auto simp: conn_exec_def next_fault_def)
qed

text \<open>With a connection free, the program of a request runs to its end.\<close>

definition connection_free :: "'body open_request list \<Rightarrow> bool" where
  "connection_free cs \<longleftrightarrow> length (filter in_transaction cs) < MAX_CONNECTIONS"

lemma pooled_alone:
  assumes "issues pooled p" and "run_on conn_exec p c = (a, c')" and "tx c = None" and "faults c = []"
    and "sys_requests s = cs1 @ (r, tag, p, None) # cs2" and "sys_db s = db c" and "connection_free (cs1 @ cs2)"
  shows "(system_step X k E R)\<^sup>*\<^sup>* s (s\<lparr> sys_db := db c', sys_requests := cs1 @ (r, tag, Return a, None) # cs2 \<rparr>)"
  using assms
proof (induction p arbitrary: c s)
  case (Return x)
  then have "s\<lparr> sys_db := db c', sys_requests := cs1 @ (r, tag, Return a, None) # cs2 \<rparr> = s" by (cases s) simp
  then show ?case by (metis rtranclp.rtrancl_refl)
next
  case (Call rq g)
  obtain rep cn where 1: "conn_exec rq c = (rep, cn)" by (rule prod.exhaust)
  have rq: "pooled rq" "issues pooled (g rep)" using Call.prems(1) by simp_all
  have cn: "tx cn = None" "faults cn = []" "exec Fine rq None (sys_db s) = (rep, None, db cn)"
    using pooled_statement [OF rq(1) 1 Call.prems(3,4)] Call.prems(6) by simp_all
  let ?s = "s\<lparr> sys_db := db cn, sys_requests := cs1 @ (r, tag, g rep, None) # cs2 \<rparr>"
  have "system_step X k E R s ?s"
  proof (rule system_step.statement [OF Call.prems(5) _ _ _ cn(3)])
    show "fault_possible R rq (cs1 @ cs2) Fine"
      using Call.prems(7) by (simp add: fault_possible_def may_fault_def pool_exhausted_def connection_free_def)
  qed (use rq(1) in \<open>auto simp: pooled_def waits_def\<close>)
  moreover have "(system_step X k E R)\<^sup>*\<^sup>* ?s
      (?s\<lparr> sys_db := db c', sys_requests := cs1 @ (r, tag, Return a, None) # cs2 \<rparr>)"
    by (rule Call.IH [OF rangeI rq(2) _ cn(1,2)]) (use Call.prems(2,7) 1 in simp_all)
  ultimately show ?case by (simp add: converse_rtranclp_into_rtranclp)
qed

subsection \<open>The routes without a budget\<close>

text \<open>The targets whose requests neither pass the layer of the proving path nor open a transaction.\<close>

definition light :: "target \<Rightarrow> bool" where
  "light tg \<longleftrightarrow> \<not> metered tg \<and> (\<forall>p. routed tg \<noteq> Handler (AddLeaf p))"

lemma pooled_handle:
  assumes "extract_call E e b rng = Inr c" and "case e of Prove p \<Rightarrow> False | AddLeaf p \<Rightarrow> False | _ \<Rightarrow> True"
  shows "issues pooled (handle X k c)"
proof (cases "\<exists>p. e = Publish p")
  case True
  then obtain i where "c = CallPublish i" using assms(1) by (auto simp: extract_call_def result_iffs)
  then have "issues (publishes i) (handle X k c)" by (simp add: handle_def issues_finish issues_publish)
  then show ?thesis by (rule issues_mono) (auto simp: publishes_def pooled_def)
next
  case False
  then show ?thesis using assms(2) by (intro reads_pooled issues_read_handle [OF assms(1)]) (auto split: endpoint.splits)
qed

lemma light_pooled: "light tg \<Longrightarrow> issues pooled (respond_to X k E l tg b rng)"
  using pooled_handle [of E _ b rng _ X k]
  by (auto simp: light_def metered_iff respond_to_def serve_def route_layer_def unmetered_def intro!: issues_bind
      split: routing.splits endpoint.splits sum.splits)

lemma light_not_metered: "light tg \<Longrightarrow> \<not> metered tg"
  by (simp add: light_def)

text \<open>Such a request arrives, runs and is answered, and everything else stays as it is.\<close>

lemma light_request_served:
  assumes s: "sys_accepting s" "r \<notin> known_ids s" "connection_free (sys_requests s)" and tg: "light tg"
    and run: "run_on conn_exec (respond_to X k E (sys_limiter s) tg b rng) (connected [] (sys_db s)) = (a, c)"
  shows "(system_step X k E R)\<^sup>*\<^sup>* s (s\<lparr> sys_db := db c, sys_answered := sys_answered s @ [(r, (tg, b), a)] \<rparr>)"
proof -
  let ?cs = "sys_requests s" and ?p = "respond_to X k E (sys_limiter s) tg b rng"
  let ?s1 = "s\<lparr> sys_requests := ?cs @ [(r, (tg, b), ?p, None)] \<rparr>"
  let ?s2 = "s\<lparr> sys_db := db c, sys_requests := ?cs @ [(r, (tg, b), Return a, None)] \<rparr>"
  have "system_step X k E R s ?s1"
    using system_step.arrive [OF s(1,2), of X k E R tg b rng] light_not_metered [OF tg]
    by (simp add: arrived_def)
  moreover have "(system_step X k E R)\<^sup>*\<^sup>* ?s1 ?s2"
    using pooled_alone [OF light_pooled [OF tg] run, of ?s1 ?cs r "(tg, b)" "[]" X k E R] s(3)
    by (simp add: connected_def)
  moreover have "r \<notin> fst ` set (in_flight (sys_limiter s))" using s(2) by (simp add: known_ids_def used_ids_def)
  then have "system_step X k E R ?s2 (s\<lparr> sys_db := db c, sys_answered := sys_answered s @ [(r, (tg, b), a)] \<rparr>)"
    using system_step.respond [of ?s2 ?cs r "(tg, b)" a None "[]" X k E R] by (cases s) (simp add: ended_def)
  ultimately show ?thesis by (meson converse_rtranclp_into_rtranclp rtranclp.rtrancl_into_rtrancl)
qed

end
