(* ===== verification/Boot.thy ===== *)
theory Boot
  imports Runs Keysource
begin

text \<open>
  \<open>src/main.rs\<close>: the start of the server, up to the moment it listens (configuration, keys,
  database, router, socket, each failure or panic ending the process), and the server it then runs, the system
  of theory \<open>Service\<close>, until the shutdown signal. Parsing a socket address, opening the pool, running
  the migrations and binding the socket are parameters.
\<close>

datatype boot_error =
    NoDatabaseUrl
  | BadBind string
  | KeysFailed key_source_error
  | StoreFailed store_error
  | BudgetPanic
  | ListenFailed string

record ('pk, 'addr, 'db) listening =
  li_address :: 'addr
  li_keys :: "'pk keys"
  li_store :: 'db
  li_capacity :: nat

text \<open>
  The semaphore of the router: tokio's \<open>Semaphore::new\<close> panics above \<open>MAX_PERMITS\<close>, which is
  \<open>usize::MAX >> 3\<close>.
\<close>

definition MAX_PERMITS :: nat where
  "MAX_PERMITS = (2 ^ 64 - 1) div 2 ^ 3"

definition proof_budget :: "environment \<Rightarrow> boot_error + nat" where
  "proof_budget env =
     (let capacity = prove_capacity env in
      if MAX_PERMITS < capacity then Inl BudgetPanic else Inr capacity)"

definition boot ::
  "('pk, 'rng, 'z) externs_scheme \<Rightarrow> environment \<Rightarrow> (string \<Rightarrow> http_outcome) \<Rightarrow> file_system \<Rightarrow>
     (string \<Rightarrow> string + 'addr) \<Rightarrow> (string \<Rightarrow> string + 'pool) \<Rightarrow> ('pool \<Rightarrow> string + 'db) \<Rightarrow>
     ('addr \<Rightarrow> string + unit) \<Rightarrow>
     boot_error + ('pk, 'addr, 'db) listening" where
  "boot X env http fs parse_addr open_pool run_migrations listen =
     try_r (ok_or NoDatabaseUrl (env ''DATABASE_URL'')) (\<lambda>database_url.
     try_r (map_err BadBind (parse_addr
       (case env ''VEILPROOF_BIND'' of Some b \<Rightarrow> b | None \<Rightarrow> ''0.0.0.0:8080''))) (\<lambda>addr.
     try_r (map_err KeysFailed (load_from_env X env http fs)) (\<lambda>k.
     try_r (map_err StoreFailed (store_connect open_pool run_migrations database_url)) (\<lambda>store.
     try_r (proof_budget env) (\<lambda>capacity.
     try_r (map_err ListenFailed (listen addr)) (\<lambda>_.
     Inr \<lparr> li_address = addr, li_keys = k, li_store = store, li_capacity = capacity \<rparr>))))))"

lemma boot_keys:
  "boot X env http fs parse_addr open_pool run_migrations listen = Inr l \<Longrightarrow>
     load_from_env X env http fs = Inr (li_keys l) \<and> li_capacity l = prove_capacity env"
  by (auto simp: boot_def result_iffs proof_budget_def Let_def split: if_splits)

text \<open>A budget above \<open>MAX_PERMITS\<close> never comes to listen, although it is a valid \<open>usize\<close>.\<close>

lemma excessive_budget_panics:
  "MAX_PERMITS < prove_capacity env \<Longrightarrow> boot X env http fs parse_addr open_pool run_migrations listen \<noteq> Inr l"
  by (auto simp: boot_def proof_budget_def result_iffs Let_def)

lemma default_budget: "env ENV_MAX_CONCURRENT_PROOFS = None \<Longrightarrow> proof_budget env = Inr DEFAULT_MAX_CONCURRENT_PROOFS"
  by (simp add: proof_budget_def prove_capacity_def DEFAULT_MAX_CONCURRENT_PROOFS_def MAX_PERMITS_def)

text \<open>\<open>axum::serve\<close> with the router of the budget, over the database as the migrations left it.\<close>

definition serving :: "('pk, 'addr, database) listening \<Rightarrow> 'body system" where
  "serving l = started (li_store l) (li_capacity l)"

end
