(* ===== verification/Unit_Tests.thy ===== *)
theory Unit_Tests
  imports Keysource Constraint_System
begin

text \<open>
  The unit tests that stand beside the code, in \<open>src/merkle.rs\<close>, \<open>src/crypto/mimc.rs\<close>,
  \<open>src/crypto/mod.rs\<close> and \<open>src/keysource.rs\<close>, as predicates that are true when the test passes: no
  \<open>unwrap\<close> or \<open>expect\<close> fails and every assertion holds. All of them pass in the model, for any
  third-party code with its documented behaviour; one needs the digest of the development key not to
  be zero. They are a check of the model against what the authors state about the program.
\<close>

subsection \<open>The tree\<close>

definition is_ok :: "'e + 'a \<Rightarrow> bool" where
  "is_ok r = (case r of Inl e \<Rightarrow> False | Inr a \<Rightarrow> True)"

definition witness_recomputes_root :: bool where
  "witness_recomputes_root =
     (case push_all (map (\<lambda>i. fr_from (100 + i :: 64 word)) [0, 1, 2, 3, 4]) new_tree of (pushed, tree) \<Rightarrow>
        list_all is_ok pushed \<and>
        (case (tree_root tree, witness tree 3) of
           (Some root, Inr w) \<Rightarrow>
             foldl (\<lambda>cur (sib, is_right).
                 if is_right then hash2 sib cur round_constants else hash2 cur sib round_constants)
               (tree_leaves tree ! 3) (zip (path_elements w) (path_indices w)) = root
         | _ \<Rightarrow> False))"

definition rejects_overflow :: bool where
  "rejects_overflow =
     (case push_all (replicate CAPACITY (fr_from (1 :: 64 word))) new_tree of (pushed, tree) \<Rightarrow>
        list_all is_ok pushed \<and> fst (push (fr_from (1 :: 64 word)) tree) = Inl Full)"

lemma foldl_fold_path:
  "foldl (\<lambda>cur (sib, is_right). if is_right then hash2 sib cur cs else hash2 cur sib cs) cur path =
     fold_path cs cur path"
  by (induction path arbitrary: cur) auto

lemma witness_recomputes_root_passes: witness_recomputes_root
proof -
  define fs where "fs = map (\<lambda>i. fr_from (100 + i :: 64 word)) [0, 1, 2, 3, 4]"
  obtain pushed tree where p: "push_all fs new_tree = (pushed, tree)" by (rule prod.exhaust)
  with push_all_spec [of new_tree fs]
  have t: "pushed = map (\<lambda>i. if i < CAPACITY then Inr i else Inl Full) [0..<length fs]"
    "leaves tree = take CAPACITY fs" "constants tree = round_constants"
    by (auto simp: new_tree_def)
  have len: "length fs = 5" by (simp add: fs_def)
  have oks: "list_all is_ok pushed" by (simp add: t(1) len is_ok_def list_all_iff CAPACITY_16)
  obtain w where "witness tree 3 = Inr w"
      "tree_root tree = Some (fold_path round_constants (leaves tree ! 3) (zip (path_elements w) (path_indices w)))"
    using witness_correct [of 3 tree] t(2,3) len by (auto simp: CAPACITY_16 tree_root_abs)
  with oks show ?thesis
    unfolding witness_recomputes_root_def fs_def [symmetric] p by (simp add: foldl_fold_path tree_leaves_def)
qed

lemma rejects_overflow_passes: rejects_overflow
proof -
  let ?fs = "replicate CAPACITY (fr_from (1 :: 64 word))"
  obtain pushed tree where p: "push_all ?fs new_tree = (pushed, tree)" by (rule prod.exhaust)
  with push_all_spec [of new_tree ?fs]
  have "pushed = map (\<lambda>i. if i < CAPACITY then Inr i else Inl Full) [0..<CAPACITY]" "leaves tree = ?fs"
    by (auto simp: new_tree_def)
  then show ?thesis by (simp add: rejects_overflow_def p push_def is_ok_def list_all_iff)
qed

subsection \<open>The hash and its gadget\<close>

text \<open>On the constraint system of \<open>Constraint_System\<close>, in prover mode.\<close>

definition native_and_gadget_agree :: bool where
  "native_and_gadget_agree =
     (let l = fr_from (42 :: 64 word); r = fr_from (1337 :: 64 word); native = hash2 l r round_constants in
      case new_witness r1cs (Inr l) (new_synthesis False) of
        Inl e \<Rightarrow> False
      | Inr (lv, cs1) \<Rightarrow>
          (case new_witness r1cs (Inr r) cs1 of
             Inl e \<Rightarrow> False
           | Inr (rv, cs2) \<Rightarrow>
               (case hash2_gadget r1cs lv rv round_constants cs2 of (gadget, cs) \<Rightarrow>
                  lc_val (own_assignment cs) gadget = native \<and> satisfied_by cs (own_assignment cs))))"

lemma native_and_gadget_agree_passes: native_and_gadget_agree
proof -
  obtain lv cs1 where 1: "new_witness r1cs (Inr (fr_from (42 :: 64 word))) (new_synthesis False) = Inr (lv, cs1)"
      "honest cs1" "known cs1 lv (fr_from (42 :: 64 word))"
    using r1cs_proving.prove_witness [OF new_synthesis_simps(3)] by blast
  obtain rv cs2 where 2: "new_witness r1cs (Inr (fr_from (1337 :: 64 word))) cs1 = Inr (rv, cs2)"
      "honest cs2" "extends cs1 cs2" "known cs2 rv (fr_from (1337 :: 64 word))"
    using r1cs_proving.prove_witness [OF 1(2)] by blast
  obtain z cs where "hash2_gadget r1cs lv rv round_constants cs2 = (z, cs)" "honest cs"
      "known cs z (hash2 (fr_from (42 :: 64 word)) (fr_from (1337 :: 64 word)) round_constants)"
    using r1cs_proving.hash2_gadget_complete [OF 2(2) known_mono [OF 1(3) 2(3)] 2(4)] by blast
  with 1(1) 2(1) show ?thesis by (simp add: native_and_gadget_agree_def honest_def known_def Let_def)
qed

subsection \<open>Keys\<close>

text \<open>
  \<open>keys_round_trip_through_disk\<close>, in the temporary directory \<open>tmp\<close> of the process \<open>pid\<close>; removing the
  directory afterwards may fail.
\<close>

definition keys_round_trip_through_disk ::
  "('pk, 'rng, 'z) externs_scheme \<Rightarrow> string \<Rightarrow> string \<Rightarrow> file_system \<Rightarrow> bool" where
  "keys_round_trip_through_disk X tmp pid fs =
     (let k = dev_keys X; dir = path_join tmp (''veilproof-keys-'' @ pid) in
      case save_keys X k dir fs of
        (Inl e, fs') \<Rightarrow> False
      | (Inr _, fs') \<Rightarrow>
          (case load_keys X dir fs' of Inl e \<Rightarrow> False | Inr loaded \<Rightarrow> encoded_vk k = encoded_vk loaded))"

lemma keys_round_trip_passes:
  assumes "key_serialization X" and "\<forall>p. \<not> unreadable fs p" and "\<forall>p. write_fault fs p = None"
  shows "keys_round_trip_through_disk X tmp pid fs"
proof -
  let ?dir = "path_join tmp (''veilproof-keys-'' @ pid)"
  obtain r fs' where s: "save_keys X (dev_keys X) ?dir fs = (r, fs')" by (rule prod.exhaust)
  then have "r = Inr ()" using assms(3) by (auto simp: save_keys_def fs_create_dir_all_def fs_write_def)
  with s save_load [OF assms(1) _ assms(2)] show ?thesis
    by (simp add: keys_round_trip_through_disk_def Let_def)
qed

subsection \<open>The pin\<close>

definition ascii_upper :: "char \<Rightarrow> char" where
  "ascii_upper c = (if char_in 97 122 c then char_of (of_char c - 32 :: nat) else c)"

definition to_uppercase :: "string \<Rightarrow> string" where
  "to_uppercase = map ascii_upper"

definition repeated :: "string \<Rightarrow> nat \<Rightarrow> string" where
  "repeated s n = concat (replicate n s)"

definition a_matching_digest_is_accepted :: "('pk, 'rng, 'z) externs_scheme \<Rightarrow> bool" where
  "a_matching_digest_is_accepted X =
     (let k = dev_keys X; digest = hex_encode X (vk_digest X k) in
      is_ok (verify_digest X k digest) \<and> is_ok (verify_digest X k (to_uppercase digest)))"

definition a_different_key_is_rejected :: "('pk, 'rng, 'z) externs_scheme \<Rightarrow> bool" where
  "a_different_key_is_rejected X =
     (case verify_digest X (dev_keys X) (repeated ''00'' 32) of Inl (VkMismatch e a) \<Rightarrow> True | _ \<Rightarrow> False)"

definition a_malformed_digest_is_rejected :: "('pk, 'rng, 'z) externs_scheme \<Rightarrow> bool" where
  "a_malformed_digest_is_rejected X =
     list_all (\<lambda>bad. verify_digest X (dev_keys X) bad = Inl BadDigest)
       [[], ''abc'', repeated ''zz'' 32, repeated ''ab'' 31]"

definition the_digest_is_stable_across_loads :: "('pk, 'rng, 'z) externs_scheme \<Rightarrow> bool" where
  "the_digest_is_stable_across_loads X =
     (let a = dev_keys X; p = pk_to_bytes X (pk a); v = vk_to_bytes X (vk a) in
      case from_bytes X p v of Inl e \<Rightarrow> False | Inr b \<Rightarrow> vk_digest X a = vk_digest X b)"

lemma upper_hex:
  assumes "c \<in> set lower_hex"
  shows "ascii_lower (ascii_upper c) = c \<and> is_hex_digit (ascii_upper c)"
proof (cases "char_in 97 122 c")
  case True
  then have "(of_char (ascii_upper c) :: nat) = of_char c - 32"
    by (auto simp: ascii_upper_def char_in_def)
  with True assms show ?thesis
    unfolding lower_hex_codes by (auto simp: char_in_def ascii_lower_def is_hex_digit_def)
next
  case False
  with assms show ?thesis
    unfolding lower_hex_codes by (auto simp: is_hex_digit_def char_in_def ascii_lower_def ascii_upper_def)
qed

lemma length_repeated [simp]: "length (repeated s n) = n * length s"
  by (simp add: repeated_def length_concat sum_list_replicate)

lemma malformed_digests: "a_malformed_digest_is_rejected X"
proof -
  have "CHR ''z'' \<in> set (repeated ''zz'' 32)" by (simp add: repeated_def)
  moreover have "\<not> is_hex_digit (CHR ''z'')" by (simp add: is_hex_digit_def char_in_def)
  ultimately have "\<not> list_all is_hex_digit (repeated ''zz'' 32)" unfolding list_all_iff by blast
  then show ?thesis by (simp add: a_malformed_digest_is_rejected_def verify_digest_def)
qed

lemma stable_digest: "key_serialization X \<Longrightarrow> the_digest_is_stable_across_loads X"
  by (simp add: the_digest_is_stable_across_loads_def from_bytes_def key_serialization_def vk_digest_def
      encoded_vk_def Let_def)

context hex_codec
begin

lemma matching_digest:
  assumes "\<And>bs. length (sha256 X bs) = 32"
  shows "a_matching_digest_is_accepted X"
proof -
  let ?d = "vk_digest X (dev_keys X)" and ?s = "hex_encode X (vk_digest X (dev_keys X))"
  have low: "set ?s \<subseteq> set lower_hex" by (rule encode_digits)
  then have up: "to_ascii_lowercase (to_uppercase ?s) = ?s" "\<forall>c \<in> set (to_uppercase ?s). is_hex_digit c"
    using upper_hex by (auto simp: to_ascii_lowercase_def to_uppercase_def subset_iff intro: map_idI)
  have "even (length (to_uppercase ?s))" by (simp add: to_uppercase_def length_encode)
  with up(2) obtain bs where bs: "hex_decode X (to_uppercase ?s) = Some bs"
    using decode_Some_iff [of "to_uppercase ?s"] by auto
  have "bs = ?d" using encode_decode [OF bs] up(1) by (simp add: encode_inj)
  with bs have "verify_digest X (dev_keys X) ?s = Inr ()" "verify_digest X (dev_keys X) (to_uppercase ?s) = Inr ()"
    using verify_digest_ok [OF assms, of "dev_keys X"] by (simp_all add: decode_encode)
  then show ?thesis by (simp add: a_matching_digest_is_accepted_def Let_def is_ok_def)
qed

lemma different_key:
  assumes "vk_digest X (dev_keys X) \<noteq> replicate 32 0"
    and "hex_decode X (repeated ''00'' 32) = Some (replicate 32 0)" and "\<And>bs. length (sha256 X bs) = 32"
  shows "a_different_key_is_rejected X"
proof -
  have "verify_digest X (dev_keys X) (repeated ''00'' 32) \<noteq> Inr ()"
    using verify_digest_ok [OF assms(3), of "dev_keys X"] assms(1,2) by auto
  moreover have "list_all is_hex_digit (repeated ''00'' 32)"
    by (simp add: repeated_def list_all_iff is_hex_digit_def char_in_def)
  ultimately show ?thesis by (simp add: a_different_key_is_rejected_def verify_digest_def Let_def split: if_splits)
qed

end

end
