(* ===== verification/Test_Vector.thy ===== *)
theory Test_Vector
  imports Crypto
begin

text \<open>
  The model on the input of the repository's committed test vector (\<open>tests/round_trip.rs\<close>,
  \<open>tests/common/registry_accepted_vector.rs\<close>): the round constants and one full hash, evaluated in
  the kernel. Reductions modulo the field order are Barrett reductions (\<open>redc\<close>), which keep the
  residue class, so only the congruence of the last value matters; the rounds are evaluated in
  pieces that check in parallel.
\<close>

subsection \<open>Evaluating the hash on integers\<close>

definition red :: "int \<Rightarrow> int" where
  "red x = redc
     21888242871839275222246405745257275088548364400416034343698204186575808495617
     156814726982096914921039737926411560209262618770332199365389290315112392061769995
     250 270 x"

lemma fr_of_int_red: "fr_of_int (red x) = fr_of_int x"
  by (simp add: fr_of_int_eq_iff red_def R_MOD_def redc_mod)

fun mimc_red :: "int \<Rightarrow> int \<Rightarrow> int list \<Rightarrow> int" where
  "mimc_red x k [] = x"
| "mimc_red x k (c # cs) =
     (let t = x + k + c;
          t2 = red (t * t);
          t4 = red (t2 * t2)
      in mimc_red (red (t4 * t)) k cs)"

lemma mimc_red:
  "mimc (fr_of_int x) (fr_of_int k) (map fr_of_int cs @ ds) =
     mimc (fr_of_int (mimc_red x k cs)) (fr_of_int k) ds"
proof (induction cs arbitrary: x)
  case (Cons c cs)
  let ?t = "x + k + c"
  have "mimc (fr_of_int x) (fr_of_int k) (map fr_of_int (c # cs) @ ds) =
      mimc (fr_of_int (red (red (red (?t * ?t) * red (?t * ?t)) * ?t))) (fr_of_int k) (map fr_of_int cs @ ds)"
    by (simp add: Let_def fr_of_int_ring fr_of_int_red)
  also have "\<dots> = mimc (fr_of_int (mimc_red x k (c # cs))) (fr_of_int k) ds"
    unfolding Cons.IH by (simp add: Let_def)
  finally show ?case .
qed simp

lemma mimc_piece:
  "mimc_red x k cs = y \<Longrightarrow>
     mimc (fr_of_int x) (fr_of_int k) (map fr_of_int cs @ ds) = mimc (fr_of_int y) (fr_of_int k) ds"
  by (simp only: mimc_red)

text \<open>The schedule of constants on integers.\<close>

definition xorshift_int :: "int \<Rightarrow> int" where
  "xorshift_int s =
     (let s1 = s XOR take_bit 128 (push_bit 13 s);
          s2 = s1 XOR drop_bit 7 s1
      in s2 XOR take_bit 128 (push_bit 17 s2))"

lemma uint_xorshift: "uint (xorshift w) = xorshift_int (uint w)"
proof -
  have "uint (drop_bit n v) = drop_bit n (uint v)" for n and v :: u128
    by (simp add: unsigned_drop_bit_eq bintr_uint)
  then show ?thesis
    by (simp only: xorshift_def xorshift_int_def Let_def unsigned_xor_eq unsigned_push_bit_eq) simp
qed

fun follows :: "int \<Rightarrow> int list \<Rightarrow> bool" where
  "follows s [] = True"
| "follows s (c # cs) = (xorshift_int s = c \<and> follows c cs)"

lemma follows_constants:
  "follows (uint state) cs \<Longrightarrow> constants_loop (length cs) state = map fr_of_int cs"
proof (induction cs arbitrary: state)
  case (Cons c cs)
  then have "uint (xorshift state) = c" "follows (uint (xorshift state)) cs"
    by (simp_all add: uint_xorshift)
  with Cons.IH show ?case by (simp add: Let_def fr_from_def)
qed simp

subsection \<open>The round constants\<close>

definition constants_1 :: "int list" where
  "constants_1 =
     [0x27dc5c1b2d4c92d60b2800d6569e01b4, 0xa28433112440a55d3207949a3cebd0b7,
      0x93c3dea3a8bd23300e576a40dddccad6, 0xe0014d664dbcb90d88e82b06bf8906c3,
      0x778e2d881d296b27768f0dd1f873c40e, 0x13b9842b57d7eacbcb6f275dffffe006,
      0xd6284bb14d9493640fd1e62fb74de46, 0x4696f6e481d31fc5f7ebd374b489667a,
      0x7d5c4dccb31a0f466242e983071aaa36, 0xd53d4a36e0076090fbe94983373cd2e2,
      0xbeb7a100ca2947eb3308554ec3b453c7, 0x646845167a83d26cb196bc9c6c1f2aa0]"

definition constants_2 :: "int list" where
  "constants_2 =
     [0x52b606cd3d626d44ac3257cecfb3bcf5, 0x6f0c1a75684dab3f514f8b9e44c546cc,
      0x89be7b320fb90f6cfa7df8091f46ff41, 0x5334c2a0d60e3eef475a240906d182ff,
      0xf955be3130a066116e69931c6c977e3a, 0x30245320688d462ff1d5361ea2da9e46,
      0x62f991df102d214e2ba3a618f047afa, 0x8a019f5e4da88ba4ed91e3211b458c8f,
      0xbc14968dd6105696abc458cab12dc456, 0x62b620e14ea8ffd095791b9a43084a5e,
      0x1dab2ec6a8bada69c7df3ef2a6430d4a, 0x40cfbc064abe05d5d59c0c2581c599d0]"

definition constants_3 :: "int list" where
  "constants_3 =
     [0x6157b99a45218779827a9c51c55c66e3, 0xe6f02a965d9452fe37343f95b0cf06ee,
      0xaba8982e9805007e889995fa8e74e363, 0x9aacd94dede4066a722a7dc51ef6b265,
      0xddf771deba8ddd6c94a605f133a96641, 0x4c2f018601ed460783363d7c1ec584cd,
      0x513642c70464e12c9da343d8de089c84, 0x664261ecef8a781a156014afa7792cbd,
      0x2de03475ca4edf776cda0c56a0a351a4, 0x8b7483208c90989d06eee7f7b30cfe07,
      0x7c0946ef86dc897838ce309e0ce3863b, 0x6acde0e0ad26133da8e0bb592732aff7]"

definition constants_4 :: "int list" where
  "constants_4 =
     [0x7a219990ad44dc84edf490d3a2f9d768, 0x1fc1265395c9ff9a799a3b0c7ca8fec6,
      0xbffbbc9ef4fe1cc4eb66e09decc0debb, 0xac72d8d5ac5e829c08644e4cdf7591c6,
      0x8d8f3c6ef3da58cabcbcdd26bf5dcb65, 0xa575c0b48135b3efe8e702a28f5b09b3,
      0x313fb07eaffb032a857cce8c1b71b360, 0xcc2b9d481245420a3867c5f6f94b8806,
      0x8a80ecdea16997bd9c8cc65d8a77de96, 0x8b31e7f04471a0fbafb55771fe1054ab,
      0x57e169bc9dc03604a394f8baeee83ec2]"

definition constants_5 :: "int list" where
  "constants_5 =
     [0xd5c2739dd45302c794a0efe91a9c1e3f, 0xcf8d9c425405bb2dc008aff17fef49c3,
      0xc6231022e0f3db90564472f980da8790, 0xa026c7c9474201ac81655f76b8b6d69f,
      0xd9d0da0db83f2b1e143fda335b45fcf2, 0x5cb4dc1ce973e90458d5e41d44040b8b,
      0x99d8cd4778ce77e719971dfbfc47815c, 0x544d4a7e8a6524434b3e65e58c8d95e,
      0x8d2f00b6565cd0aa56d347d473bcdf6c, 0x1e31d64b2558b5efea34c5335425fdd2,
      0xa3baa480f7f2c2d735a68279811a82a9]"

definition constants_6 :: "int list" where
  "constants_6 =
     [0x28d04ae4baa1306fe05ea8e41f353dec, 0xa9d83f20d66c6fada381d4a7e4d7ac97,
      0x142d5ffb51faac2426fdd4a2e77bc60e, 0x9df2894225220208ddeb5257e0817202,
      0x3db82b2e16a4661b06f86fa22190b066, 0x9cfe8c8efec0cefde4941c2186ff4886,
      0x56151852d3c63f37a0912ac73c1e5797, 0xda9fcbf556f1737737ea0dca2f16ef8,
      0xe6274ff347b2c6fdebfcea8bee7a3225, 0x2550bfec57b945f4ea948eb7ff6cef01,
      0xec2afc82e7d7b87edcc5592b7b77d69f]"

definition constants_7 :: "int list" where
  "constants_7 =
     [0x18ac14cb46baa53e575de367f7437ef2, 0xb6c94296802dd4c4bf8e70ec8eb2048f,
      0xd4ca9c364fa61f529681b187fd33a346, 0x1c90dfc0a3679ef9fc8bb82e6149d580,
      0x33100a08a84d65188b47c2731918262b, 0x484bb0f057d68f47f7cac9df44a8fca7,
      0x1cd4371a8989aa0455bd5c1c06b6649e, 0x8accdf868e558177db241e10801fefd7,
      0xfdbf3a5fbfc97048fa497432d08ec5c8, 0x52ba9dfa035c4112b7982c301aa1aa43,
      0xad5286fb7ff4093a570fdc56d41819d7]"

definition constants_8 :: "int list" where
  "constants_8 =
     [0x19d9188a3f96d2e4026cf5c104c4bc24, 0xa531e7c5981859d6360b3c3e58debc5c,
      0x1424fa66aa562476a2b8665ce8039624, 0x749a9378b5869b9fd47b5b4f13e29808,
      0xfb3f82b2e19db70ba6eed08598125f38, 0x1107a69821719a5eee8627e5b75eb586,
      0xf3f9f7cf181c5f5dfe769e772ff7a96d, 0xe5500145147418941d1e99a1b391bd7f,
      0x41aa521cac4b156c54aebce060bc21c5, 0x23cbdeec40f7b2afdb18c30d1ac188c6,
      0xac18ddc14971b8a07fd491887520fa57]"

lemmas constants_defs = constants_1_def constants_2_def constants_3_def constants_4_def constants_5_def constants_6_def constants_7_def constants_8_def

lemma constants_follow: "follows 0xdeadbeefcafebabe0123456789abcdef
    (constants_1 @ constants_2 @ constants_3 @ constants_4 @ constants_5 @ constants_6 @ constants_7 @ constants_8)"
  unfolding constants_defs by code_simp

lemma round_constants_eval:
  "round_constants = map fr_of_int constants_1 @ map fr_of_int constants_2 @ map fr_of_int constants_3 @ map fr_of_int constants_4 @ map fr_of_int constants_5 @ map fr_of_int constants_6 @ map fr_of_int constants_7 @ map fr_of_int constants_8"
proof -
  have "length (constants_1 @ constants_2 @ constants_3 @ constants_4 @ constants_5 @ constants_6 @ constants_7 @ constants_8) = ROUNDS"
    by (simp add: constants_defs ROUNDS_def)
  moreover have "uint INITIAL_STATE = 0xdeadbeefcafebabe0123456789abcdef" by (simp add: INITIAL_STATE_def)
  ultimately show ?thesis
    using follows_constants [of INITIAL_STATE, OF ssubst [of _ _ "\<lambda>k. follows k _", OF _ constants_follow]]
    by (simp add: round_constants_def)
qed

subsection \<open>The nullifier of the test vector's secret\<close>

lemma piece_1: "mimc_red
    1234567890 2 constants_1 =
    9849730469532875081025358375815128286571505609317816257249181972503934339607"
  unfolding constants_1_def by code_simp

lemma piece_2: "mimc_red
    9849730469532875081025358375815128286571505609317816257249181972503934339607 2 constants_2 =
    5340936221837505249028972796915666822910524626139172390719371301988888966014"
  unfolding constants_2_def by code_simp

lemma piece_3: "mimc_red
    5340936221837505249028972796915666822910524626139172390719371301988888966014 2 constants_3 =
    17289763954219679078807831018464394321829409401129780236320100201678366034965"
  unfolding constants_3_def by code_simp

lemma piece_4: "mimc_red
    17289763954219679078807831018464394321829409401129780236320100201678366034965 2 constants_4 =
    2633021271608058851887579458514446265221776076313259729115617515091370694344"
  unfolding constants_4_def by code_simp

lemma piece_5: "mimc_red
    2633021271608058851887579458514446265221776076313259729115617515091370694344 2 constants_5 =
    20292945311334429415046514370329563471614647822831910382719543922197635152526"
  unfolding constants_5_def by code_simp

lemma piece_6: "mimc_red
    20292945311334429415046514370329563471614647822831910382719543922197635152526 2 constants_6 =
    11375360677846022994266380971789931373102374843111249787436684982849637975903"
  unfolding constants_6_def by code_simp

lemma piece_7: "mimc_red
    11375360677846022994266380971789931373102374843111249787436684982849637975903 2 constants_7 =
    1881574831424365310265580030642544593935321947156409162810540922380634119095"
  unfolding constants_7_def by code_simp

lemma piece_8: "mimc_red
    1881574831424365310265580030642544593935321947156409162810540922380634119095 2 constants_8 =
    7232361743145880182722497111545121768103851239918855385095040204426979909715"
  unfolding constants_8_def by code_simp

lemma test_vector_hash:
  "mimc (fr_of_int 1234567890) (fr_of_int 2) round_constants = fr_of_int
     7232361743145880182722497111545121768103851239918855385095040204426979909715 + fr_of_int 2"
proof -
  have eval: "round_constants = map fr_of_int constants_1 @ map fr_of_int constants_2 @ map fr_of_int constants_3 @ map fr_of_int constants_4 @ map fr_of_int constants_5 @ map fr_of_int constants_6 @ map fr_of_int constants_7 @ map fr_of_int constants_8 @ []"
    by (simp add: round_constants_eval)
  show ?thesis
    unfolding eval by (simp only: mimc_piece [OF piece_1] mimc_piece [OF piece_2] mimc_piece [OF piece_3] mimc_piece [OF piece_4] mimc_piece [OF piece_5] mimc_piece [OF piece_6] mimc_piece [OF piece_7] mimc_piece [OF piece_8] mimc.simps(1))
qed

text \<open>The bytes of \<open>PUB_NULLIFIER\<close>.\<close>

definition PUB_NULLIFIER :: "u8 list" where
  "PUB_NULLIFIER =
     [0xf, 0xfd, 0x5f, 0x26, 0x9d, 0xe2, 0x15, 0x13, 0x53, 0x1d, 0x39, 0x11, 0x29, 0xb5, 0xac, 0x49,
      0x7e, 0xb6, 0x3a, 0x54, 0x11, 0xcc, 0x5f, 0xd4, 0x35, 0xc1, 0xe4, 0x62, 0x39, 0xdb, 0x23, 0x29]"

lemma nullifier_value:
  "nullifier (fr_from (1234567890 :: 64 word)) = fr_of_int
     0xffd5f269de21513531d391129b5ac497eb63a5411cc5fd435c1e46239db2329"
proof -
  have "uint (1234567890 :: 64 word) = 1234567890" "uint (2 :: 64 word) = 2" by simp_all
  then have "nullifier (fr_from (1234567890 :: 64 word)) = fr_of_int
      (7232361743145880182722497111545121768103851239918855385095040204426979909715 + 2 + 1234567890 + 2)"
    by (simp only: nullifier_def hash2_def NULLIFIER_DOMAIN_def fr_from_def test_vector_hash fr_of_int_ring)
  then show ?thesis by simp
qed

lemma nullifier_bytes: "fr_be (nullifier (fr_from (1234567890 :: 64 word))) = PUB_NULLIFIER"
proof -
  have "fr_into_bigint (nullifier (fr_from (1234567890 :: 64 word))) = be_val PUB_NULLIFIER"
    unfolding nullifier_value by (simp add: fr_into_bigint_def R_MOD_def be_val_def PUB_NULLIFIER_def)
  moreover have "length PUB_NULLIFIER = 32" by (simp add: PUB_NULLIFIER_def)
  ultimately show ?thesis using to_bytes_be_be_val [of PUB_NULLIFIER] by (simp add: fr_be_def)
qed

end
