(* ===== verification/Spec2Isabelle.thy ===== *)
theory Spec2Isabelle
  imports Reference_Externs Responsiveness Cli Boot Unit_Tests Test_Vector
begin

text \<open>
  \<^bold>\<open>veilproof-server: a verification development.\<close>

  The program is a Rust server for anonymous credentials. An issuer keeps a named Merkle tree of
  commitments and publishes its root; a holder sends a secret and gets a Groth16 proof that the
  secret's commitment is in the tree, bound to the holder's address and to a nullifier. A contract
  outside this repository checks the proof. The development models the Rust code under
  \<open>src/\<close> as HOL functions and step relations and proves what makes each part correct.

  \<^bold>\<open>Parts of the program and the theories that model them.\<close>

  \<^item> \<open>src/crypto/mimc.rs\<close>: \<open>Mimc\<close> has the round constants (\<open>xorshift\<close> on 128-bit words,
    \<open>constants_loop\<close>), the permutation \<open>mimc\<close> and \<open>hash2\<close>. The field is \<open>fr\<close> in \<open>Scalar_Field\<close>, the
    integers modulo the BN254 order, whose primality is certified in \<open>Bn254_Prime\<close> (Pocklington's
    criterion, Barrett arithmetic) and \<open>Bn254_Cert\<close> (the certificate, evaluated in the kernel).
  \<^item> \<open>src/crypto/circuit.rs\<close> and the gadgets of \<open>mimc.rs\<close>: \<open>Circuit\<close> has \<open>generate_constraints\<close> over an
    abstract constraint library (record \<open>constraint_api\<close>), with three locales for what the library
    documents: \<open>constraint_laws\<close> (any assignment), \<open>proving_laws\<close> (prover mode), \<open>setup_laws\<close> (setup mode).
    \<open>Constraint_System\<close> is a rank-one constraint system with allocation, multiplication, selection
    and equality, on which all three are interpreted.
  \<^item> \<open>src/merkle.rs\<close>: \<open>Merkle\<close>, the root and witness loops with their possible panics as \<open>None\<close>, and
    the abstract tree \<open>subtree_root\<close> they are proved to compute.
  \<^item> \<open>src/crypto/encoding.rs\<close>: \<open>Encoding\<close>, big-endian field elements and Soroban's layout of curve points,
    keys and proofs.
  \<^item> \<open>src/crypto/mod.rs\<close>: \<open>Crypto\<close>, the keys and their persistence, digest, commitments, nullifiers, and
    \<open>prove\<close> with its self-check. Third-party code is the record \<open>externs\<close> of \<open>Externs\<close>.
  \<^item> \<open>src/store.rs\<close> and \<open>migrations/0001_init.sql\<close>: \<open>Postgres\<close> has the tables, the statements and programs
    that issue them one at a time, each of which may fail before or after it took effect, and may be
    refused without a failure for a text that Postgres does not take (\<open>may_fault\<close>); \<open>Store\<close> has
    every method of the store as such a program, the table invariant \<open>store_ok\<close> and the abstract
    content; \<open>Store_Concurrency\<close> runs any number of programs interleaved, under read-committed
    isolation with waiting on a pending key.
  \<^item> \<open>src/api/\<close>: \<open>Api\<close> has every handler, the errors and their responses, the JSON and the routes;
    \<open>Api_Contract\<close> and \<open>Registry\<close> prove the handlers against the store's contract; \<open>Server\<close> dispatches calls to handlers
    and composes them with the concurrent store; \<open>Proof_Limit\<close> is the budget of concurrent proofs;
    \<open>Footprint\<close> bounds what a handler's requests can touch; \<open>Http\<close> composes the layer of the proving
    route (\<open>route_layer\<close>, around the handler and around the 405 of its path), the extractors (part of the
    parameter \<open>framework\<close>, given the limit on bodies) and the handlers into \<open>serve\<close>, and with the table
    of routes and the preflight requests into \<open>respond_to\<close>; \<open>Outcomes\<close> says what such a program can
    answer with, given what the database can reply, \<open>Calm\<close> what while the database does not fail.
  \<^item> The running server, \<open>src/main.rs\<close> from \<open>axum::serve\<close> on: \<open>Service\<close> has its state (database,
    limiter, requests in progress, answers, signals), \<open>shutdown_signal\<close> and the step relation
    \<open>system_step\<close>; a step is the arrival of a method, path and body, a statement of some request, the start or end of a blocking
    task, a response, the drop of a request whose client has gone, or a signal. \<open>Composition\<close> shows
    that the system projects to the sessions of \<open>Store_Concurrency\<close> and to the limiter of
    \<open>Proof_Limit\<close>, its invariant, and where its answers come from; \<open>Shutdown\<close> proves progress and
    that a run ends once the signal has resolved; \<open>Runs\<close> builds runs of the system, \<open>Responsiveness\<close>
    those in which one request is served while all others wait.
  \<^item> \<open>src/keysource.rs\<close>, \<open>src/main.rs\<close> up to listening, \<open>src/bin/\<close>: \<open>Keysource\<close>, \<open>Boot\<close> and \<open>Cli\<close>, on
    the string functions of \<open>Text\<close> (trimming of Unicode white space in UTF-8, \<open>parse::<usize>\<close>).
  \<^item> The unit tests beside the code: \<open>Unit_Tests\<close>, each as a predicate that is proved to hold.
  \<^item> \<open>Veil_Prelude\<close> holds what the theories share: results and the question mark operator, panics,
    vectors, positions. \<open>Test_Vector\<close> evaluates the model on the input of the repository's committed
    test vector. \<open>Reference_Externs\<close> instantiates the third-party code, so that every theorem with an
    assumption about it is applied to an instance that satisfies it.

  \<^bold>\<open>How they interact.\<close> A proving request (\<open>holder_prove\<close>) parses the secret, reads the leaves and the
  published root from the store, rebuilds the tree, and calls \<open>prove\<close>, which builds the circuit from the
  tree's witness, lets Groth16 prove it, verifies the result and encodes it. The store's contract is
  the locale \<open>tree_store\<close>, extended by \<open>registry_store\<close> with the issuer table; \<open>hex_codec\<close> is the one for
  the hex crate. The handlers' lemmas are proved inside
  \<open>tree_store\<close> and reach the model through the sublocales \<open>pg\<close> and \<open>reg\<close> of \<open>hex_codec\<close>. \<open>boot\<close> ends with
  the keys, the store and the budget that \<open>serving\<close> starts the system with; there the limiter decides
  when a request arrives, its program runs statement by statement between those of the others, the
  proof itself runs in a blocking task that outlives a dropped request, and the permit is given back
  when the request's future ends. The theorems on the running server are about every state that
  \<open>system_step\<close> reaches.

  \<^bold>\<open>What the theorems show.\<close> The circuit admits exactly the true membership statements, setup and
  prover agree on it, and the in-circuit hash is the native one (C1 to C5). The tree's loops compute
  the abstract tree, witnesses fold to the root, and a satisfied circuit over a tree's root belongs to
  a leaf of it unless a hash collision is exhibited (C6 to C9). The hash is a permutation, its constants
  never degenerate, and the model computes the nullifier of the committed test vector (C10, C11); proofs
  are only returned when verified, and members get one (C12, C13). Encodings are lossless and the key digest separates keys (C14 to C16). The handlers
  implement their abstract specifications under arbitrary database failures, end to end, and write
  nothing else (C17 to C20, C22, C23). Of the running server: every proof handed out is good (C21), the
  tables stay consistent, acknowledged leaves are in the tree and stay there (C24, C25), it never
  deadlocks and a shutdown drains it (C26, C27), but publications can overtake each other (C28). The
  proof budget holds while no client goes away (C29), starves no path but the proving one (C30), and
  does not hold when clients go away (C31); how it is configured (C32). No request panics, every answer
  of the running server has its documented status, and the reasons for a server error are listed (C33);
  what a failure tells the client is stated (C34). Keys, configuration and tools agree with each other,
  the keys come from the configured source and no other, up to the keys a running server proves with
  (C35 to C40).

  \<^bold>\<open>Bounds.\<close> The depth is the program's 4, the capacity 16 and the rounds 91; the lemmas on trees and
  paths hold for every depth. No definition uses fuel: every loop of the program is a total function,
  by structural recursion or with its termination proof. Machine integers are words: \<open>u128\<close> in the
  constants, \<open>i64\<close> and \<open>i32\<close> in the store's positions and counts, \<open>usize\<close> as the numbers below \<open>2 ^ 64\<close>.

  \<^bold>\<open>Assumptions, all documented behaviour of code outside the repository.\<close> \<open>hex_codec\<close>; \<open>groth16_complete\<close>
  (honest proofs of satisfied circuits verify); \<open>key_serialization\<close> (keys read back as written); the
  32-byte output of SHA-256; the laws of the constraint library; a framework that keeps the status when
  it takes the body of a response to \<open>HEAD\<close> away. Soundness of Groth16 and
  collision resistance are not assumed: the safety theorems are about the constraints and exhibit
  the collision. Postgres is modelled at read-committed isolation with the constraints of the schema,
  and refuses a text with a NUL character or one too long for an index; where a theorem on a program
  that runs alone speaks of failures, such a refusal is one of them. A budget above tokio's limit on
  semaphores panics in \<open>boot\<close>, before the server listens. A spawned task is not queued: tokio runs a
  bounded number of blocking tasks at once, the model's \<open>tasks\<close> are those spawned and unfinished.

  \<^bold>\<open>Not modelled.\<close> Opening the connection pool and running the migrations (parameters of
  \<open>store_connect\<close>), parsing a socket address and binding it (parameters of \<open>boot\<close>), the transport of HTTP,
  the JSON and path extractors of axum, the responses that it and its layers make where no handler
  runs (the parameter \<open>framework\<close> of \<open>respond_to\<close>, configured with the limit on bodies and with \<open>cors\<close>),
  the headers those layers add to other responses, and log output: all of them are calls into
  third-party code without logic of the program's own. Of the committed test vector the nullifier is
  evaluated and not the root, whose sixteen hashes more take more than an hour in the kernel, nor the
  proof, which needs the curve. The notes that the tools print on standard error are left out. A system
  with a failing database may lose a reply at any statement; the server process itself does not crash.
  The parts of the program with logic of its own are all modelled.
\<close>

section \<open>The circuit\<close>

text \<open>
  C1: Soundness of the membership circuit, for any constraint library that keeps the documented
  meaning of its operations: whatever assignment satisfies the constraints the circuit generates,
  its first two public inputs are a root and a nullifier for which some secret's commitment folds
  up to the root along a path of the tree's depth and the nullifier is that secret's. No assignment
  satisfies the circuit for a false statement.
\<close>

theorem circuit_sound:
  assumes "constraint_laws L holds val is_bit bval public inputs"
    and "generate_constraints L circ s = Inr s'" and "inputs s = 0" and "holds s' a"
  shows "\<exists>secret path. membership_statement (mc_constants circ) (public a 0) (public a 1) secret path"
  by (rule constraint_laws.generate_constraints_sound [OF assms])

lemma honest_synthesis:
  "\<exists>S a. setup_constraints round_constants = Inr S \<and> satisfied_by S a"
  using membership_statement_exists [of round_constants 5] setup_realises [of round_constants _ _ 5] by blast

theorem circuit_sound_witness:
  "\<exists>S a. setup_constraints round_constants = Inr S \<and> satisfied_by S a \<and>
     (\<exists>secret path. membership_statement round_constants (instance_of a 0) (instance_of a 1) secret path)"
proof -
  obtain S a where S: "generate_constraints r1cs (empty_circuit round_constants) (new_synthesis True) = Inr S"
      "satisfied_by S a"
    using honest_synthesis by (auto simp: setup_constraints_def)
  have "length (instances (new_synthesis True)) = 0" by simp
  from circuit_sound [OF r1cs_laws.constraint_laws_axioms S(1) this S(2)] S show ?thesis
    unfolding setup_constraints_def by (auto simp: empty_circuit_def)
qed

text \<open>
  C2: Completeness of the membership circuit, for any constraint library whose prover mode records
  the values it is given: for a true statement (a secret, a path of the tree's depth, the root it
  folds to, the secret's nullifier) and any address, constraint generation succeeds, the recorded
  values satisfy every constraint, and the public inputs are root, nullifier and address in that
  order.
\<close>

theorem circuit_complete:
  assumes "proving_laws L honest knows knows_bool grows public_values"
    and "membership_statement (mc_constants circ) root null secret (zip es ds)"
    and "length es = DEPTH" "length ds = DEPTH"
    and "mc_root circ = Some root" "mc_nullifier circ = Some null" "mc_addr circ = Some addr"
      "mc_secret circ = Some secret" "mc_path_elements circ = Some es" "mc_path_indices circ = Some ds"
    and "honest s"
  shows "\<exists>t. generate_constraints L circ s = Inr t \<and> honest t \<and>
    public_values t = public_values s @ [root, null, addr]"
  by (rule proving_laws.generate_constraints_complete [OF assms])

theorem circuit_complete_witness:
  "\<exists>root null t. generate_constraints r1cs
      (trivial_circuit round_constants 5 7 (replicate DEPTH (0, False)) root) (new_synthesis False) = Inr t \<and>
     honest t \<and> instances t = [root, null, 7]"
proof -
  obtain root null where st: "membership_statement round_constants root null 5 (replicate DEPTH (0, False))"
    using membership_statement_exists by blast
  then have null: "null = hash2 5 (fr_from NULLIFIER_DOMAIN) round_constants"
    by (simp add: membership_statement_def)
  let ?circ = "trivial_circuit round_constants 5 7 (replicate DEPTH (0, False)) root"
  have st': "membership_statement (mc_constants ?circ) root null 5
      (zip (replicate DEPTH 0) (replicate DEPTH False))"
    using st by (simp add: trivial_circuit_def zip_replicate)
  have "\<exists>t. generate_constraints r1cs ?circ (new_synthesis False) = Inr t \<and> honest t \<and>
      instances t = instances (new_synthesis False) @ [root, null, 7]"
    by (rule circuit_complete [OF r1cs_proving.proving_laws_axioms st'])
      (simp_all add: trivial_circuit_def null)
  then show ?thesis by auto
qed

text \<open>
  C3: On the rank-one reference system the circuit is exact: setup succeeds with exactly three
  public inputs, and the triples (root, nullifier, address) that some assignment satisfies are
  exactly those for which the membership statement holds of some secret and path; the address is
  unconstrained.
\<close>

theorem circuit_exact:
  "\<exists>S. setup_constraints cs = Inr S \<and> length (instances S) = 3 \<and>
     (\<forall>root null addr.
        (\<exists>a. satisfied_by S a \<and> instance_of a 0 = root \<and> instance_of a 1 = null \<and> instance_of a 2 = addr)
        \<longleftrightarrow> (\<exists>secret path. membership_statement cs root null secret path))"
proof -
  obtain root null where "membership_statement cs root null 0 (replicate DEPTH (0, False))"
    using membership_statement_exists by blast
  then obtain S where S: "setup_constraints cs = Inr S" "length (instances S) = 3"
    using setup_realises by blast
  have "(\<exists>a. satisfied_by S a \<and> instance_of a 0 = root \<and> instance_of a 1 = null \<and> instance_of a 2 = addr)
      \<longleftrightarrow> (\<exists>secret path. membership_statement cs root null secret path)" for root null addr
    using setup_sound [OF S(1)] setup_realises [of cs root null _ _ addr] S(1) by fastforce
  with S show ?thesis by blast
qed

lemma trivial_synthesis:
  "\<exists>root t. generate_constraints r1cs
      (trivial_circuit round_constants 5 7 (replicate DEPTH (0, False)) root) (new_synthesis False) = Inr t"
proof -
  let ?path = "replicate DEPTH (0 :: fr, False)"
  obtain root null where "membership_statement round_constants root null 5 ?path"
    using membership_statement_exists by blast
  then have "\<exists>s. prover_constraints (trivial_circuit round_constants 5 7 ?path root) = Inr s \<and>
      satisfied_by s (own_assignment s) \<and> instances s = [root, null, 7]"
    by (intro prover_constraints_complete [where es = "map fst ?path" and ds = "map snd ?path" and secret = 5])
      (simp_all add: trivial_circuit_def zip_map_fst_snd membership_statement_def)
  then show ?thesis by (auto simp: prover_constraints_def)
qed

text \<open>
  C4: The trusted setup and every prover see the same constraint system: whenever a prover's
  synthesis of a circuit succeeds, the setup of the witness-free circuit with the same constants
  succeeds and records exactly the same constraints over the same number of inputs and witnesses.
\<close>

theorem setup_same_constraints:
  assumes "prover_constraints circ = Inr t"
  shows "\<exists>s. setup_constraints (mc_constants circ) = Inr s \<and> constraints s = constraints t \<and>
    length (instances s) = length (instances t) \<and> length (witnesses s) = length (witnesses t)"
  using setup_mirrors_prover [OF assms] by (auto simp: mirrors_def)

theorem setup_same_constraints_witness:
  "\<exists>root s t. prover_constraints (trivial_circuit round_constants 5 7 (replicate DEPTH (0, False)) root) = Inr t \<and>
     setup_constraints round_constants = Inr s \<and> constraints s = constraints t"
proof -
  obtain root t where t: "generate_constraints r1cs
      (trivial_circuit round_constants 5 7 (replicate DEPTH (0, False)) root) (new_synthesis False) = Inr t"
    using trivial_synthesis by blast
  from setup_same_constraints [OF t [folded prover_constraints_def]] t show ?thesis
    by (auto simp: prover_constraints_def trivial_circuit_def)
qed

text \<open>
  C5: The in-circuit hash agrees with the native one: on a satisfied prover state in which two
  variables carry values, the gadget succeeds, keeps the state satisfied and yields a variable that
  carries the native hash of the two values.
\<close>

theorem gadget_agrees:
  assumes "proving_laws L honest knows knows_bool grows public_values"
    and "honest s" "knows s l x" "knows s r y"
  shows "\<exists>z t. hash2_gadget L l r cs s = (z, t) \<and> honest t \<and> knows t z (hash2 x y cs)"
  using proving_laws.hash2_gadget_complete [OF assms, of cs] by blast

theorem gadget_agrees_witness:
  "\<exists>z t. hash2_gadget r1cs (new_constant r1cs 3) (new_constant r1cs 4) round_constants (new_synthesis False) = (z, t) \<and>
     honest t \<and> known t z (hash2 3 4 round_constants)"
  by (rule gadget_agrees [OF r1cs_proving.proving_laws_axioms new_synthesis_simps(3)
        r1cs_proving.prove_constant r1cs_proving.prove_constant])

section \<open>The Merkle tree\<close>

text \<open>
  C6: The root computation never panics and computes the root of the perfect binary tree over the
  padded leaves, defined by recursion on the depth.
\<close>

theorem tree_root_refines:
  "tree_root t = Some (subtree_root (constants t) DEPTH (padded t))"
  using tree_root_abs by (simp add: abs_root_def)

text \<open>
  C7: The witness of every leaf of a tree within its capacity exists, has one sibling and one
  direction per level, and folds the leaf up to the tree's root.
\<close>

theorem tree_witness_folds:
  assumes "from_leaves ls = Inr t" and "i < length ls"
  shows "\<exists>w. witness t i = Inr w \<and> length (path_elements w) = DEPTH \<and> length (path_indices w) = DEPTH \<and>
    tree_root t = Some (fold_path round_constants (ls ! i) (zip (path_elements w) (path_indices w)))"
proof -
  have t: "leaves t = ls" "constants t = round_constants" "length ls \<le> CAPACITY"
    using assms(1) by (auto simp: from_leaves_def split: if_splits)
  with witness_correct [of i t] assms(2) show ?thesis by (auto simp: tree_root_abs)
qed

lemma from_leaves_single: "from_leaves [f] = Inr (tree_of [f])"
  by (rule from_leaves_tree_of) (simp add: CAPACITY_16)

theorem tree_witness_folds_witness:
  "\<exists>w. witness (tree_of [5]) 0 = Inr w \<and>
     tree_root (tree_of [5]) = Some (fold_path round_constants 5 (zip (path_elements w) (path_indices w)))"
  using tree_witness_folds [OF from_leaves_single [of 5], of 0] by auto

text \<open>
  C8: Growing and building agree: pushing any list of leaves onto a new tree, one by one, answers the
  positions 0 to 15 in order and then only the full-tree error, and leaves the tree that
  \<open>from_leaves\<close> builds from the accepted leaves, the first sixteen; \<open>from_leaves\<close> accepts exactly
  the lists of which no push is refused. Starting from the default tree the tree has as many leaves
  as were accepted, and is empty only if nothing was pushed.
\<close>

theorem tree_operations:
  "fst (push_all fs new_tree) = map (\<lambda>i. if i < 16 then Inr i else Inl Full) [0..<length fs] \<and>
   from_leaves (take 16 fs) = Inr (snd (push_all fs new_tree)) \<and>
   from_leaves fs = (if Inl Full \<in> set (fst (push_all fs new_tree)) then Inl Full
     else Inr (snd (push_all fs new_tree))) \<and>
   tree_len (snd (push_all fs default_tree)) = min 16 (length fs) \<and>
   tree_is_empty (snd (push_all fs default_tree)) = (fs = [])"
  using push_all_spec [of new_tree fs]
  by (auto simp: new_tree_def default_tree_def tree_len_def tree_is_empty_def from_leaves_def CAPACITY_16)

text \<open>
  C9: Binding: let some assignment satisfy the circuit with the root of a tree as its first public
  input. Then the second is the nullifier of a secret whose commitment is one of the padded leaves
  of the tree (a stored leaf or the empty leaf), at the position the path spells, unless running
  the path next to the tree exhibits two different pairs with the same hash.
\<close>

theorem membership_binding:
  assumes "from_leaves ls = Inr t" and "setup_constraints round_constants = Inr S"
    and "satisfied_by S a" and "tree_root t = Some (instance_of a 0)"
  shows "\<exists>secret path. instance_of a 1 = nullifier secret \<and> length path = DEPTH \<and>
    (leaf_commitment secret = padded t ! path_position (map snd path) \<or>
     (\<exists>p q. find_collision round_constants (padded t) (leaf_commitment secret) path = Some (p, q) \<and>
        p \<noteq> q \<and> hash2 (fst p) (snd p) round_constants = hash2 (fst q) (snd q) round_constants))"
proof -
  obtain secret path where st: "membership_statement round_constants (instance_of a 0) (instance_of a 1) secret path"
    using setup_sound [OF assms(2,3)] by blast
  have "constants t = round_constants" using assms(1) by (auto simp: from_leaves_def split: if_splits)
  then have "fold_path round_constants (leaf_commitment secret) path =
      subtree_root round_constants (length path) (padded t)"
    using st assms(4) by (simp add: membership_statement_def leaf_commitment_def tree_root_abs abs_root_def)
  from binding [OF _ this] st have
    "leaf_commitment secret = padded t ! path_position (map snd path) \<or>
     (\<exists>p q. find_collision round_constants (padded t) (leaf_commitment secret) path = Some (p, q))"
    by (simp add: membership_statement_def)
  then have "leaf_commitment secret = padded t ! path_position (map snd path) \<or>
     (\<exists>p q. find_collision round_constants (padded t) (leaf_commitment secret) path = Some (p, q) \<and>
        p \<noteq> q \<and> hash2 (fst p) (snd p) round_constants = hash2 (fst q) (snd q) round_constants)"
    using find_collision_sound by blast
  moreover have "instance_of a 1 = nullifier secret" "length path = DEPTH"
    using st by (simp_all add: membership_statement_def nullifier_def)
  ultimately show ?thesis by blast
qed

lemma tree_witness_ex: "\<exists>w. witness (tree_of [f]) 0 = Inr w"
  using witness_correct [of 0 "tree_of [f]"] by (auto simp: CAPACITY_16)

theorem membership_binding_witness:
  "\<exists>S a secret path. setup_constraints round_constants = Inr S \<and> satisfied_by S a \<and>
     tree_root (tree_of [leaf_commitment 5]) = Some (instance_of a 0) \<and>
     instance_of a 1 = nullifier secret \<and> length path = DEPTH \<and>
     (leaf_commitment secret = padded (tree_of [leaf_commitment 5]) ! path_position (map snd path) \<or>
      (\<exists>p q. find_collision round_constants (padded (tree_of [leaf_commitment 5])) (leaf_commitment secret) path = Some (p, q)))"
proof -
  let ?t = "tree_of [leaf_commitment 5]"
  obtain w where w: "witness ?t 0 = Inr w" using tree_witness_ex by blast
  have "membership_statement round_constants (abs_root ?t) (nullifier 5) 5 (zip (path_elements w) (path_indices w))"
    by (rule witness_statement [OF _ _ _ _ w]) (simp_all add: CAPACITY_16)
  then obtain S a where S: "setup_constraints round_constants = Inr S" "satisfied_by S a" "instance_of a 0 = abs_root ?t"
    using setup_realises by blast
  have "tree_root ?t = Some (instance_of a 0)" by (simp add: tree_root_abs S(3))
  from membership_binding [OF from_leaves_single S(1,2) this] S this show ?thesis by blast
qed

section \<open>Hashing and proof generation\<close>

text \<open>
  C10: The MiMC permutation is a permutation: under every key and for every list of round constants
  each output has exactly one input, found by running the rounds backwards.
\<close>

theorem mimc_permutation:
  "mimc_inv (mimc x k cs) k cs = x \<and> mimc (mimc_inv y k cs) k cs = y"
  by (simp add: mimc_inv_mimc mimc_mimc_inv)

text \<open>
  C11: The hash is the deployed one: the schedule of round constants yields 91 constants and never
  degenerates (its step on 128-bit words is injective, so from its nonzero start it never reaches
  zero), and the nullifier of the secret of the repository's committed test vector is, byte for
  byte, the public input that the contract is recorded to have accepted.
\<close>

theorem hash_reproduces_vector:
  "inj xorshift \<and> (xorshift ^^ n) INITIAL_STATE \<noteq> 0 \<and> length round_constants = ROUNDS \<and>
   fr_be (nullifier (fr_from (1234567890 :: 64 word))) = PUB_NULLIFIER"
proof -
  have "(xorshift ^^ n) INITIAL_STATE \<noteq> 0"
  proof (induction n)
    case (Suc n)
    have "xorshift 0 = 0" by (simp add: xorshift_def Let_def)
    with Suc show ?case using injD [OF inj_xorshift, of _ 0] by auto
  qed (simp add: INITIAL_STATE_def)
  with inj_xorshift nullifier_bytes show ?thesis by (simp add: ROUNDS_def)
qed

text \<open>
  C12: \<open>prove\<close> on a tree within its capacity: a secret whose commitment is not a leaf gets the
  not-a-member error; for a member the outcome is the proving error, a panic of the proof library,
  or the encoding of a proof that the verifier accepted for exactly the tree's root, the secret's
  nullifier and the holder's address. No unverified proof is ever returned.
\<close>

theorem prove_only_verified:
  assumes "from_leaves ls = Inr t" and "prove X k t secret holder rng = (r, rng')"
  shows "if leaf_commitment secret \<in> set ls
    then r = Inl (Failed ProvingFailed) \<or> r = Inl Panicked \<or>
      (\<exists>root pf. tree_root t = Some root \<and>
        groth_verify X (vk k) [root, nullifier secret, address_field X holder] pf = Inr True \<and>
        r = Inr \<lparr> mp_proof = encoded_proof_from_arkworks pf, mp_root = fr_be root,
                  mp_nullifier = fr_be (nullifier secret) \<rparr>)
    else r = Inl (Failed NotAMember)"
proof -
  have t: "leaves t = ls" "length (leaves t) \<le> CAPACITY"
    using assms(1) by (auto simp: from_leaves_def split: if_splits)
  from prove_result_cases [OF t(2) assms(2)] show ?thesis
    by (auto simp: t(1) tree_root_abs)
qed

lemma ideal_prove_member:
  "\<exists>mp rng'. prove ideal_externs \<lparr> pk = (), vk = ideal_vk \<rparr> (tree_of [leaf_commitment 5]) 5 holder rng = (Inr mp, rng')"
  by (rule prove_succeeds [OF ideal_groth16_complete])
    (simp_all add: trusted_setup_def CAPACITY_16)

theorem prove_only_verified_witness:
  "\<exists>mp rng'. prove ideal_externs \<lparr> pk = (), vk = ideal_vk \<rparr> (tree_of [leaf_commitment 5]) 5 ''G'' 0 = (Inr mp, rng') \<and>
     mp_nullifier mp = fr_be (nullifier 5)"
proof -
  obtain mp rng' where p: "prove ideal_externs \<lparr> pk = (), vk = ideal_vk \<rparr> (tree_of [leaf_commitment 5]) 5 ''G'' 0
      = (Inr mp, rng')" using ideal_prove_member by blast
  then have "mp_nullifier mp = fr_be (nullifier 5)"
    using prove_only_verified [OF from_leaves_single p] by auto
  with p show ?thesis by simp
qed

text \<open>
  C13: With a complete proof system and keys from the program's own setup, \<open>prove\<close> serves every
  member of every tree: it returns a proof, for any holder address and any randomness.
\<close>

theorem prove_serves_members:
  assumes "groth16_complete X" and "trusted_setup X rng0 = (k, rng1)"
    and "from_leaves ls = Inr t" and "leaf_commitment secret \<in> set ls"
  shows "\<exists>mp rng'. prove X k t secret holder rng = (Inr mp, rng')"
proof (rule prove_succeeds [OF assms(1,2)])
  show "length (leaves t) \<le> CAPACITY" "constants t = round_constants" "leaf_commitment secret \<in> set (leaves t)"
    using assms(3,4) by (auto simp: from_leaves_def split: if_splits)
qed

theorem prove_serves_members_witness:
  "\<exists>mp rng'. prove ideal_externs \<lparr> pk = (), vk = ideal_vk \<rparr> (tree_of [leaf_commitment 5]) 5 ''G'' 7 = (Inr mp, rng')"
  by (rule prove_serves_members [OF ideal_groth16_complete _ from_leaves_single])
    (simp_all add: trusted_setup_def)

section \<open>Encodings and keys\<close>

text \<open>
  C14: Client values: a string is accepted as a field element exactly when it is 64 hex digits of
  either case, everything else is a bad request, and the encoding of a field element is accepted and
  gives the element back. Values are not required to be canonical: the encoding of the element plus
  the field order is a different string, accepted as the same element.
\<close>

theorem parse_fr_hex_spec:
  assumes "hex_codec X"
  shows "((\<exists>f. parse_fr_hex X s = Inr f) \<longleftrightarrow> length s = 64 \<and> list_all is_hex_digit s) \<and>
    (case parse_fr_hex X s of Inr _ \<Rightarrow> True | Inl e \<Rightarrow> status (into_response e) = 400) \<and>
    parse_fr_hex X (hex_encode X (fr_be f)) = Inr f \<and>
    parse_fr_hex X (hex_encode X (to_bytes_be 32 (fr_into_bigint f + nat R_MOD))) = Inr f \<and>
    hex_encode X (to_bytes_be 32 (fr_into_bigint f + nat R_MOD)) \<noteq> hex_encode X (fr_be f)"
proof -
  have "case parse_fr_hex X s of Inr _ \<Rightarrow> True | Inl e \<Rightarrow> status (into_response e) = 400"
    using hex_codec.parse_fr_hex_error [OF assms, of s]
    by (auto simp: into_response_def json_response_def split: sum.splits)
  then show ?thesis
    using hex_codec.parse_fr_hex_accepts [OF assms, of s] hex_codec.parse_fr_hex_be [OF assms, of f]
      hex_codec.parse_fr_hex_reduces [OF assms, of f] hex_codec.noncanonical_differs [OF assms, of f]
    by (simp add: list_all_iff)
qed

theorem parse_fr_hex_spec_witness:
  "\<not> (\<exists>f. parse_fr_hex ideal_externs ''0a1b'' = Inr f) \<and>
   parse_fr_hex ideal_externs (std_hex_encode (fr_be 5)) = Inr 5 \<and>
   parse_fr_hex ideal_externs (std_hex_encode (to_bytes_be 32 (fr_into_bigint 5 + nat R_MOD))) = Inr 5"
  using parse_fr_hex_spec [OF ideal_hex.hex_codec_axioms, of "''0a1b''" 5] by simp

text \<open>
  C15: The proof layout is lossless: for points as the curve library produces them, a reader of the
  documented layout (big-endian coordinates, \<open>c1\<close> before \<open>c0\<close>, zeros for infinity) gets back every
  component, and the components have the fixed lengths 64, 128 and 64.
\<close>

theorem proof_encoding_lossless:
  assumes "proof_canonical pf"
  shows "\<lparr> proof_a = g1_parse (enc_a (encoded_proof_from_arkworks pf)),
       proof_b = g2_parse (enc_b (encoded_proof_from_arkworks pf)),
       proof_c = g1_parse (enc_c (encoded_proof_from_arkworks pf)) \<rparr> = pf \<and>
    length (enc_a (encoded_proof_from_arkworks pf)) = 64 \<and>
    length (enc_b (encoded_proof_from_arkworks pf)) = 128 \<and>
    length (enc_c (encoded_proof_from_arkworks pf)) = 64"
  using assms
  by (cases pf) (simp add: encoded_proof_from_arkworks_def proof_canonical_def g1_parse_bytes g2_parse_bytes)

theorem proof_encoding_lossless_witness:
  "g1_parse (enc_a (encoded_proof_from_arkworks ideal_proof)) = proof_a ideal_proof"
proof -
  have "proof_canonical ideal_proof"
    by (simp add: ideal_proof_def proof_canonical_def g1_canonical_def g2_canonical_def fq2_is_zero_def
        origin_def origin2_def)
  from proof_encoding_lossless [OF this] show ?thesis by (metis groth_proof.select_convs(1))
qed

text \<open>
  C16: The digest identifies the verifying key: for two keys as the curve library produces them, the
  bytes fed to SHA-256 are equal exactly when the keys are, so no two keys share a digest short of a
  SHA-256 collision.
\<close>

theorem vk_digest_separates:
  assumes "vk_canonical (vk k1)" "vk_canonical (vk k2)"
  shows "vk_digest_input (encoded_vk k1) = vk_digest_input (encoded_vk k2) \<longleftrightarrow> vk k1 = vk k2"
  using vk_digest_input_inj [OF assms] by (auto simp: encoded_vk_def)

lemma ideal_vk_canonical: "vk_canonical ideal_vk" "vk_canonical (ideal_vk\<lparr> gamma_abc_g1 := [] \<rparr>)"
  by (simp_all add: ideal_vk_def vk_canonical_def g1_canonical_def g2_canonical_def fq2_is_zero_def
      origin_def origin2_def)

theorem vk_digest_separates_witness:
  "vk_digest_input (encoded_vk \<lparr> pk = (), vk = ideal_vk \<rparr>) \<noteq>
   vk_digest_input (encoded_vk \<lparr> pk = (), vk = ideal_vk\<lparr> gamma_abc_g1 := [] \<rparr> \<rparr>)"
  using vk_digest_separates [of "\<lparr> pk = (), vk = ideal_vk \<rparr>"
      "\<lparr> pk = (), vk = ideal_vk\<lparr> gamma_abc_g1 := [] \<rparr> \<rparr>"] ideal_vk_canonical
  by (simp add: ideal_vk_def)

section \<open>The store and the handlers\<close>

text \<open>
  C17: Adding a leaf, on any store that satisfies the table invariant and under any failures: the
  invariant and the published roots are kept; a full tree is refused and nothing changes; otherwise
  the answer is the number of leaves so far and the next count with the leaf appended to this
  issuer's list and no other, or a database error, after which the leaf is appended or nothing has
  changed. Without failures the first outcome is certain.
\<close>

theorem add_leaf_refines:
  assumes "hex_codec X" and "store_ok X d" and "run (add_leaf X i f) (connected fs d) = (r, c)"
  shows "store_ok X (db c) \<and> tx c = None \<and> abs_published X (db c) = abs_published X d \<and>
    (if CAPACITY \<le> length (abs_leaves X d i)
     then abs_leaves X (db c) = abs_leaves X d \<and> (r = Inl StoreFull \<or> is_db_error r \<and> fs \<noteq> [])
     else r = Inr (length (abs_leaves X d i), length (abs_leaves X d i) + 1) \<and>
            abs_leaves X (db c) = (abs_leaves X d)(i := abs_leaves X d i @ [f]) \<or>
          is_db_error r \<and> fs \<noteq> [] \<and>
            (abs_leaves X (db c) = abs_leaves X d \<or>
             abs_leaves X (db c) = (abs_leaves X d)(i := abs_leaves X d i @ [f])))"
  using hex_codec.run_add_leaf [OF assms(1) _ assms(3) [unfolded run_def]] assms(2)
  by (auto simp: connected_def conn_ok_def conn_calm_def)

abbreviation fresh_database :: database where
  "fresh_database \<equiv> empty_database (\<lambda>a b. True)"

lemma abs_leaves_empty [simp]: "abs_leaves X (empty_database le) i = []"
  by (simp add: abs_leaves_def empty_database_def rows_of_def)

theorem add_leaf_refines_witness:
  "\<exists>c. run (add_leaf ideal_externs ''gov'' 5) (connected [] fresh_database) = (Inr (0, 1), c) \<and>
     abs_leaves ideal_externs (db c) ''gov'' = [5]"
proof -
  obtain r c where run: "run (add_leaf ideal_externs ''gov'' 5) (connected [] fresh_database) = (r, c)"
    by (rule prod.exhaust)
  from add_leaf_refines [OF ideal_hex.hex_codec_axioms store_ok_empty run] run show ?thesis
    by (auto simp: CAPACITY_16)
qed

text \<open>
  C18: Publishing, under any failures: the leaves never change; an empty tree is a bad request and
  changes nothing; otherwise the answer is the hex encoding of the root of the issuer's leaves with
  that root recorded for this issuer and no other, or a database failure, after which it is recorded
  or nothing has changed. The handler never panics.
\<close>

theorem publish_records_root:
  assumes "hex_codec X" and "store_ok X d" and "run (publish X i) (connected fs d) = (r, c)"
  shows "store_ok X (db c) \<and> abs_leaves X (db c) = abs_leaves X d \<and>
    (r = Inr \<lparr> rr_root = hex_encode X (fr_be (root_of (abs_leaves X d i))) \<rparr> \<and> abs_leaves X d i \<noteq> [] \<and>
       abs_published X (db c) = (abs_published X d)(i \<mapsto> root_of (abs_leaves X d i)) \<or>
     (\<exists>m. r = Inl (Failed (BadRequest m))) \<and> abs_leaves X d i = [] \<and> abs_published X (db c) = abs_published X d \<or>
     db_failure r \<and> fs \<noteq> [] \<and>
       (abs_published X (db c) = abs_published X d \<or>
        abs_leaves X d i \<noteq> [] \<and> abs_published X (db c) = (abs_published X d)(i \<mapsto> root_of (abs_leaves X d i))))"
  using hex_codec.store_publish_result [OF assms(1) _ assms(3) [unfolded run_def]] assms(2)
  by (auto simp: connected_def conn_ok_def conn_calm_def)

theorem publish_records_root_witness:
  "\<exists>m c. run (publish ideal_externs ''gov'') (connected [] fresh_database) = (Inl (Failed (BadRequest m)), c)"
proof -
  obtain r c where run: "run (publish ideal_externs ''gov'') (connected [] fresh_database) = (r, c)"
    by (rule prod.exhaust)
  from publish_records_root [OF ideal_hex.hex_codec_axioms store_ok_empty run] run show ?thesis by auto
qed

text \<open>
  C19: What is published is what is read: after a publication that succeeded, without further
  failures, reading the root returns the same response, the issuer's summary has that root, the
  number of its leaves and the capacity 16, and the listing of issuers has the issuer, each name
  once.
\<close>

theorem publish_then_read:
  assumes "hex_codec X" and "store_ok X d" and "run (publish X i) (connected fs d) = (Inr resp, c)"
  shows "fst (run (get_root X i) (connected [] (db c))) = Inr resp \<and>
    fst (run (issuer_info X i) (connected [] (db c))) =
      Inr \<lparr> ii_name = i, ii_leaf_count = length (abs_leaves X d i), ii_capacity = 16,
        ii_published_root = Some (rr_root resp) \<rparr> \<and>
    (\<exists>names. fst (run list_issuers (connected [] (db c))) = Inr names \<and> i \<in> set names \<and> distinct names)"
proof -
  have c: "store_ok X (db c)" "abs_published X (db c) i = Some (root_of (abs_leaves X d i))"
      "resp = \<lparr> rr_root = hex_encode X (fr_be (root_of (abs_leaves X d i))) \<rparr>"
      "abs_leaves X (db c) = abs_leaves X d"
    using hex_codec.store_publish_result [OF assms(1) _ assms(3) [unfolded run_def]] assms(2)
    by (auto simp: connected_def conn_ok_def conn_calm_def)
  let ?c = "connected [] (db c)"
  have ok: "conn_ok X ?c" "conn_calm ?c" using hex_codec.connected_ok [OF assms(1) c(1)] by simp_all
  obtain r1 c1 where 1: "run_on conn_exec (get_root X i) ?c = (r1, c1)" by (rule prod.exhaust)
  obtain r2 c2 where 2: "run_on conn_exec (issuer_info X i) ?c = (r2, c2)" by (rule prod.exhaust)
  obtain r3 c3 where 3: "run_on conn_exec list_issuers ?c = (r3, c3)" by (rule prod.exhaust)
  have db: "db ?c = db c" by (simp add: connected_def)
  note listed = published_is_listed [OF c(2)] distinct_listed_names [OF c(1)]
  have "r1 = Inr resp"
    using hex_codec.store_get_root_result [OF assms(1) ok(1) 1] ok(2) c(2,3) by (simp add: db)
  moreover have "r2 = Inr \<lparr> ii_name = i, ii_leaf_count = length (abs_leaves X d i), ii_capacity = 16,
      ii_published_root = Some (rr_root resp) \<rparr>"
    using hex_codec.store_issuer_info_result [OF assms(1) ok(1) 2] ok(2) c(2-4) listed(1)
    by (simp add: db CAPACITY_16)
  moreover have "r3 = Inr (listed_names (db c))"
    using hex_codec.store_list_issuers_result [OF assms(1) ok(1) 3] ok(2) by (simp add: db)
  ultimately show ?thesis using 1 2 3 listed by (simp add: run_def)
qed

lemma one_leaf_database:
  "\<exists>d. store_ok ideal_externs d \<and> abs_leaves ideal_externs d ''gov'' = [f]"
proof -
  obtain r c where run: "run_on conn_exec (add_leaf ideal_externs ''gov'' f) (connected [] fresh_database) = (r, c)"
    by (rule prod.exhaust)
  have "store_ok ideal_externs (db c) \<and> abs_leaves ideal_externs (db c) ''gov'' = [f]"
    using ideal_hex.run_add_leaf [OF _ run] store_ok_empty [of ideal_externs "\<lambda>a b. True"]
    by (simp add: connected_def conn_ok_def conn_calm_def CAPACITY_16)
  then show ?thesis by blast
qed

theorem publish_then_read_witness:
  "\<exists>d resp c. run (publish ideal_externs ''gov'') (connected [] d) = (Inr resp, c) \<and>
     fst (run (get_root ideal_externs ''gov'') (connected [] (db c))) = Inr resp"
proof -
  obtain d where d: "store_ok ideal_externs d" "abs_leaves ideal_externs d ''gov'' = [5]"
    using one_leaf_database by blast
  obtain r c where run: "run (publish ideal_externs ''gov'') (connected [] d) = (r, c)"
    by (rule prod.exhaust)
  have "\<exists>resp. r = Inr resp"
    using ideal_hex.store_publish_result [OF _ run [unfolded run_def]] d
    by (auto simp: connected_def conn_ok_def conn_calm_def)
  then show ?thesis using publish_then_read [OF ideal_hex.hex_codec_axioms d(1)] run by blast
qed

text \<open>
  C20: Answering a proving request refines its specification over the abstract content: under any
  failures the leaves and published roots stay as they are, and the answer is exactly that of
  \<open>prove_spec\<close> on the issuer's leaves and published root, or a database failure. In particular the
  handler never panics, not even when the blocking task does.
\<close>

theorem holder_prove_refines:
  assumes "hex_codec X" and "store_ok X d" and "run (holder_prove X k rng i req) (connected fs d) = (r, c)"
  shows "store_ok X (db c) \<and> abs_leaves X (db c) = abs_leaves X d \<and> abs_published X (db c) = abs_published X d \<and>
    (r = map_err Failed (prove_spec X k rng (abs_leaves X d i) (abs_published X d i) req) \<or>
     db_failure r \<and> fs \<noteq> [])"
  using hex_codec.store_prove_result [OF assms(1) _ assms(3) [unfolded run_def]] assms(2)
  by (auto simp: connected_def conn_ok_def conn_calm_def)

theorem holder_prove_refines_witness:
  "\<exists>e c. run (holder_prove ideal_externs \<lparr> pk = (), vk = ideal_vk \<rparr> 0 ''gov''
      \<lparr> req_secret = ''zz'', req_holder_address = ''G'' \<rparr>) (connected [] fresh_database) = (Inl (Failed e), c)"
proof -
  let ?req = "\<lparr> req_secret = ''zz'', req_holder_address = ''G'' \<rparr>"
  obtain r c where run: "run (holder_prove ideal_externs \<lparr> pk = (), vk = ideal_vk \<rparr> 0 ''gov'' ?req)
      (connected [] fresh_database) = (r, c)"
    by (rule prod.exhaust)
  have "\<exists>e. prove_spec ideal_externs \<lparr> pk = (), vk = ideal_vk \<rparr> 0 ls pub ?req = Inl e" for ls pub
    using ideal_hex.parse_fr_hex_accepts [of "''zz''"]
    by (cases "parse_fr_hex ideal_externs ''zz''") (auto simp: prove_spec_def)
  with holder_prove_refines [OF ideal_hex.hex_codec_axioms store_ok_empty run] run show ?thesis
    by (metis map_err_simps(1))
qed

lemma ideal_setup: "trusted_setup ideal_externs 0 = (\<lparr> pk = (), vk = ideal_vk \<rparr>, 0)"
  by (simp add: trusted_setup_def)

abbreviation member_request :: prove_request where
  "member_request \<equiv> \<lparr> req_secret = std_hex_encode (fr_be 5), req_holder_address = ''G'' \<rparr>"

lemma published_database:
  "\<exists>d. store_ok ideal_externs d \<and> abs_leaves ideal_externs d ''gov'' = [leaf_commitment 5] \<and>
     abs_published ideal_externs d ''gov'' = Some (root_of [leaf_commitment 5])"
proof -
  obtain d0 where d0: "store_ok ideal_externs d0" "abs_leaves ideal_externs d0 ''gov'' = [leaf_commitment 5]"
    using one_leaf_database by blast
  obtain r c where run: "run_on conn_exec (publish ideal_externs ''gov'') (connected [] d0) = (r, c)"
    by (rule prod.exhaust)
  have "store_ok ideal_externs (db c) \<and> abs_leaves ideal_externs (db c) ''gov'' = [leaf_commitment 5] \<and>
      abs_published ideal_externs (db c) ''gov'' = Some (root_of [leaf_commitment 5])"
    using ideal_hex.store_publish_result [OF _ run] ideal_hex.connected_ok [OF d0(1)] d0(2)
    by (auto simp: conn_ok_def)
  then show ?thesis by blast
qed

lemma member_served:
  "\<exists>d resp c. store_ok ideal_externs d \<and>
     run (holder_prove ideal_externs \<lparr> pk = (), vk = ideal_vk \<rparr> 0 ''gov'' member_request) (connected [] d) = (Inr resp, c)"
proof -
  let ?X = ideal_externs and ?k = "\<lparr> pk = (), vk = ideal_vk \<rparr>" and ?f = "leaf_commitment 5"
  obtain d where d: "store_ok ?X d" "abs_leaves ?X d ''gov'' = [?f]" "abs_published ?X d ''gov'' = Some (root_of [?f])"
    using published_database by blast
  obtain r c where run: "run_on conn_exec (holder_prove ?X ?k 0 ''gov'' member_request) (connected [] d) = (r, c)"
    by (rule prod.exhaust)
  have "parse_fr_hex ?X (req_secret member_request) = Inr 5" using ideal_hex.parse_fr_hex_be [of 5] by simp
  then have "\<exists>resp. prove_spec ?X ?k 0 [?f] (Some (root_of [?f])) member_request = Inr resp"
    by (rule prove_spec_member [OF ideal_groth16_complete ideal_setup _ , rotated 1]) (simp_all add: CAPACITY_16)
  then have "\<exists>resp. r = Inr resp"
    using ideal_hex.store_prove_result [OF _ run] ideal_hex.connected_ok [OF d(1)] d by auto
  with run d(1) show ?thesis by (auto simp: run_def)
qed

text \<open>
  C22: From commitment to proof: with a complete proof system, keys of the program's setup, a
  working database and room in the issuer's tree, a holder whose commitment is added, and whose
  issuer then publishes, gets a proof; it is against exactly the root that the publication returned
  and carries the secret's nullifier.
\<close>

theorem add_publish_prove_succeeds:
  assumes "hex_codec X" and "groth16_complete X" and "trusted_setup X rng0 = (k, rng1)"
    and "store_ok X d" and "length (abs_leaves X d i) < CAPACITY"
    and "parse_fr_hex X (req_secret req) = Inr secret"
    and "run (issuer_add_leaf X i (hex_encode X (fr_be (leaf_commitment secret)))) (connected [] d) = (r1, ca)"
    and "run (publish X i) ca = (r2, cb)" and "run (holder_prove X k rng i req) cb = (r3, cc)"
  shows "\<exists>resp. r1 = Inr \<lparr> alr_position = length (abs_leaves X d i), alr_count = length (abs_leaves X d i) + 1 \<rparr> \<and>
    r2 = Inr \<lparr> rr_root = pr_root resp \<rparr> \<and> r3 = Inr resp \<and>
    pr_nullifier resp = hex_encode X (fr_be (nullifier secret))"
  using hex_codec.store_add_publish_prove [OF assms(1) _ _ _ hex_codec.decode_encode [OF assms(1)] assms(2,3,6)
      assms(7-9) [unfolded run_def]] assms(5) hex_codec.connected_ok [OF assms(1,4)]
  by simp

theorem add_publish_prove_succeeds_witness:
  "\<exists>resp c1 c2 c3.
     run (issuer_add_leaf ideal_externs ''gov'' (std_hex_encode (fr_be (leaf_commitment 5)))) (connected [] fresh_database)
       = (Inr \<lparr> alr_position = 0, alr_count = 1 \<rparr>, c1) \<and>
     run (publish ideal_externs ''gov'') c1 = (Inr \<lparr> rr_root = pr_root resp \<rparr>, c2) \<and>
     run (holder_prove ideal_externs \<lparr> pk = (), vk = ideal_vk \<rparr> 0 ''gov'' member_request) c2 = (Inr resp, c3)"
proof -
  let ?X = ideal_externs
  obtain r1 c1 where 1: "run (issuer_add_leaf ?X ''gov'' (hex_encode ?X (fr_be (leaf_commitment 5))))
      (connected [] fresh_database) = (r1, c1)" by (rule prod.exhaust)
  obtain r2 c2 where 2: "run (publish ?X ''gov'') c1 = (r2, c2)" by (rule prod.exhaust)
  obtain r3 c3 where 3: "run (holder_prove ?X \<lparr> pk = (), vk = ideal_vk \<rparr> 0 ''gov'' member_request) c2 = (r3, c3)"
    by (rule prod.exhaust)
  have p: "parse_fr_hex ?X (req_secret member_request) = Inr 5" using ideal_hex.parse_fr_hex_be [of 5] by simp
  have "length (abs_leaves ?X fresh_database ''gov'') < CAPACITY" by (simp add: CAPACITY_16)
  from add_publish_prove_succeeds [OF ideal_hex.hex_codec_axioms ideal_groth16_complete ideal_setup
      store_ok_empty this p 1 2 3] 1 2 3
  show ?thesis by auto
qed

text \<open>
  C23: What a request can write, whatever the database replies and however requests fail: only a
  \<open>POST\<close> writes at all. Adding a leaf touches no nullifier, no published root and no other issuer's
  leaves; publishing touches no leaf, no nullifier and no other issuer's root; proving leaves trees
  and issuers alone, and of the holder's secret only the nullifier's hex form reaches the database.
\<close>

theorem requests_write_only_their_own:
  assumes "run (respond_to X k E s tg b rng) (connected fs d) = (r, c)"
  shows "db c = d \<or> fst tg = Post \<and>
    (case routed tg of
       Handler (AddLeaf p) \<Rightarrow> nullifier_rows (db c) = nullifier_rows d \<and> root_column (db c) = root_column d \<and>
         (\<exists>name. path_param E p = Inr name \<and>
            (\<forall>j. j \<noteq> name \<longrightarrow> rows_of j (leaf_rows (db c)) = rows_of j (leaf_rows d)))
     | Handler (Publish p) \<Rightarrow> nullifier_rows (db c) = nullifier_rows d \<and> leaf_rows (db c) = leaf_rows d \<and>
         (\<exists>name. path_param E p = Inr name \<and> (\<forall>j. j \<noteq> name \<longrightarrow> root_column (db c) j = root_column d j))
     | Handler (Prove p) \<Rightarrow> leaf_rows (db c) = leaf_rows d \<and> issuer_rows (db c) = issuer_rows d \<and>
         (\<exists>name req secret. path_param E p = Inr name \<and> prove_body E b = Inr req \<and>
            parse_fr_hex X (req_secret req) = Inr secret \<and>
            set (nullifier_rows (db c)) \<subseteq> insert (name, to_hex X (nullifier secret)) (set (nullifier_rows d)))
     | _ \<Rightarrow> False)"
proof (cases "routed tg")
  case (Handler e)
  have sel: "db (connected fs d) = d" "tx (connected fs d) = None" by (simp_all add: connected_def)
  obtain r1 where run: "run_on conn_exec (serve X k E s e b rng) (connected fs d) = (r1, c)"
    using assms Handler by (auto simp: run_def respond_to_def run_bind split: prod.splits)
  note post = route_post [OF Handler]
  show ?thesis
  proof (cases e)
    case (AddLeaf p)
    with serve_adds_leaf [of X k E s p b rng "connected fs d"] run post sel Handler show ?thesis
      by (auto simp: only_leaves_of_def)
  next
    case (Publish p)
    with serve_publishes [of X k E s p b rng "connected fs d"] run post sel Handler show ?thesis
      by (auto simp: only_root_of_def)
  next
    case (Prove p)
    with serve_proves [of X k E s p b rng "connected fs d"] run post sel Handler show ?thesis
      by (auto simp: only_nullifier_def)
  qed (use serve_reads [OF _ run] sel in auto)
next
  case (MethodNotAllowed e)
  with assms route_layer_cases [of s e "Return (Some (unmatched E cors tg))"] show ?thesis
    by (auto simp: run_def respond_to_def connected_def)
qed (use assms in \<open>auto simp: run_def respond_to_def connected_def\<close>)

text \<open>
  A framework whose extractors take the path segment and a body within the limit as they are, and
  which answers 404 or 405, and a preflight request, without a body.
\<close>

definition plain_framework :: "string framework" where
  "plain_framework = \<lparr> path_param = Inr,
     read_leaf = (\<lambda>limit b. if limit < length b then Inl 413 else Inr \<lparr> alq_commitment = b \<rparr>),
     read_prove = (\<lambda>limit b. if limit < length b then Inl 413
       else Inr \<lparr> req_secret = b, req_holder_address = ''G'' \<rparr>),
     unmatched = (\<lambda>layer tg. rejection (case routed tg of MethodNotAllowed e \<Rightarrow> 405 | _ \<Rightarrow> 404)),
     preflight = (\<lambda>layer tg. rejection 200),
     without_body = (\<lambda>r. r\<lparr> body := None \<rparr>) \<rparr>"

lemma plain_framework_sel [simp]:
  "path_param plain_framework p = Inr p"
  "leaf_body plain_framework b = (if BODY_LIMIT < length b then Inl 413 else Inr b)"
  "prove_body plain_framework b =
     (if BODY_LIMIT < length b then Inl 413 else Inr \<lparr> req_secret = b, req_holder_address = ''G'' \<rparr>)"
  "status (without_body plain_framework r) = status r"
  by (simp_all add: plain_framework_def leaf_body_def prove_body_def)

lemma gov_routes:
  "routed (post ''gov'' ''leaves'') = Handler (AddLeaf ''gov'')"
  "routed (post ''gov'' ''publish'') = Handler (Publish ''gov'')"
  "routed (post ''gov'' ''prove'') = Handler (Prove ''gov'')"
  by simp_all

lemma hex_element_short [simp]: "\<not> BODY_LIMIT < length (std_hex_encode (fr_be f))"
  using ideal_hex.length_encode [of "fr_be f"] by (simp add: BODY_LIMIT_def)

theorem requests_write_only_their_own_witness:
  "\<exists>r c. run (respond_to ideal_externs \<lparr> pk = (), vk = ideal_vk \<rparr> plain_framework (new_limiter 2)
      (Get, [''issuers'', ''gov'', ''root'']) [] 0) (connected [] fresh_database) = (r, c) \<and> db c = fresh_database"
proof -
  obtain r c where run: "run (respond_to ideal_externs \<lparr> pk = (), vk = ideal_vk \<rparr> plain_framework (new_limiter 2)
      (Get, [''issuers'', ''gov'', ''root'']) [] 0) (connected [] fresh_database) = (r, c)"
    by (rule prod.exhaust)
  from requests_write_only_their_own [OF run] run show ?thesis by auto
qed

section \<open>Requests at the same time\<close>

text \<open>
  C24: The tables stay consistent whatever runs at the same time: in every reachable state of the
  server, with any number of requests to any endpoints, interleaved statement by statement under
  read-committed isolation, with arbitrary failures, clients that go away and a shutdown, the store
  invariant holds; in particular issuer names are unique and each issuer's leaves have the positions
  0, 1, 2, ... without gap or duplicate, at most 16 of them, all with valid stored commitments.
\<close>

theorem tables_stay_consistent:
  assumes "hex_codec X" and "store_ok X d0" and "(system_step X k E R)\<^sup>*\<^sup>* (started d0 capacity) s"
    and "sys_db s = d"
  shows "store_ok X d \<and> distinct (issuer_names d) \<and>
    map row_position (rows_of i (leaf_rows d)) = map of_nat [0..<length (abs_leaves X d i)] \<and>
    length (abs_leaves X d i) \<le> CAPACITY \<and> list_all (\<lambda>r. stored X (row_commitment r)) (leaf_rows d)"
proof -
  have d: "store_ok X d"
    using started_reaches [OF assms(1-3)] assms(4) by (simp add: system_inv_def server_inv_def store_view_def)
  then have "issuer_leaves_ok (rows_of i (leaf_rows d))" using rows_of_ok by (auto simp: store_ok_def)
  with d abs_leaves_bound [OF d, of i] show ?thesis
    by (auto simp: store_ok_def issuer_table_ok_def issuer_names_def issuer_leaves_ok_def abs_leaves_length
        leaf_table_ok_def list_all_iff)
qed

text \<open>The regime without failures and departures, on Unix.\<close>

abbreviation quiet :: regime where
  "quiet \<equiv> \<lparr> dropping = False, failing = False, on_unix = True \<rparr>"

abbreviation ideal_keys :: "unit keys" where
  "ideal_keys \<equiv> \<lparr> pk = (), vk = ideal_vk \<rparr>"

lemma one_leaf_system:
  "\<exists>s. (system_step ideal_externs ideal_keys plain_framework quiet)\<^sup>*\<^sup>* (started fresh_database 2) s \<and>
     abs_leaves ideal_externs (sys_db s) ''gov'' = [5] \<and>
     (0, (post ''gov'' ''leaves'', std_hex_encode (fr_be 5)), Some (leaf_answer 0 1)) \<in> set (sys_answered s)"
proof -
  let ?X = ideal_externs and ?s = "started fresh_database 2 :: string system" and ?b = "std_hex_encode (fr_be 5)"
  let ?p = "respond_to ?X ideal_keys plain_framework (sys_limiter ?s) (post ''gov'' ''leaves'') ?b (0 :: nat)"
  obtain r c where run: "run_on conn_exec (issuer_add_leaf ?X ''gov'' ?b) (connected [] fresh_database) = (r, c)"
    by (rule prod.exhaust)
  have "parse_fr_hex ?X ?b = Inr 5" using ideal_hex.parse_fr_hex_be [of 5] by simp
  with ideal_hex.store_add_leaf_result [OF _ run] ideal_hex.connected_ok [OF store_ok_empty]
  have r: "r = Inr \<lparr> alr_position = 0, alr_count = 1 \<rparr>" "abs_leaves ?X (db c) ''gov'' = [5]"
    by (auto simp: CAPACITY_16)
  have "run_on conn_exec ?p (connected [] (sys_db ?s)) = (Some (leaf_answer 0 1), c)"
    using run r(1)
    by (simp add: respond_to_serve serve_def route_layer_def unmetered_def extract_call_def plain_framework_sel handle_def run_finish respond_def
        leaf_answer_def started_def)
  from request_alone [OF _ _ _ _ _ _ this, of 0 quiet] r(2) show ?thesis
    by (force simp: started_def new_limiter_def known_ids_def request_ids_def used_ids_def)
qed

theorem tables_stay_consistent_witness:
  "\<exists>s. (system_step ideal_externs ideal_keys plain_framework quiet)\<^sup>*\<^sup>* (started fresh_database 2) s \<and>
     map row_position (rows_of ''gov'' (leaf_rows (sys_db s))) = [0]"
proof -
  obtain s where s: "(system_step ideal_externs ideal_keys plain_framework quiet)\<^sup>*\<^sup>* (started fresh_database 2) s"
      "abs_leaves ideal_externs (sys_db s) ''gov'' = [5]"
    using one_leaf_system by blast
  from tables_stay_consistent [OF ideal_hex.hex_codec_axioms store_ok_empty s(1) refl, of "''gov''"] s
  show ?thesis by auto
qed

text \<open>
  Trees only grow at the end: between any two states of a running server each issuer's list of
  leaves is extended, never shortened or reordered.
\<close>

theorem leaves_only_appended:
  assumes "hex_codec X" and "store_ok X d0" and "(system_step X k E R)\<^sup>*\<^sup>* (started d0 capacity) s"
    and "(system_step X k E R)\<^sup>*\<^sup>* s s'"
  shows "\<exists>new. abs_leaves X (sys_db s') i = abs_leaves X (sys_db s) i @ new"
proof -
  have "server_inv X (answer_view X E) (store_view s)"
    using started_reaches [OF assms(1-3)] by (simp add: system_inv_def)
  from reachable_appends [OF store_view_reachable [OF assms(4)] this hex_codec.system_program_disciplined [OF assms(1)]]
  show ?thesis by (simp add: store_view_def)
qed

text \<open>
  C25: An acknowledged leaf is in the tree and stays there: however the requests interleave and fail,
  when a request that adds a commitment was answered with a position and a count, then in every later
  state, up to and after the shutdown, the issuer's tree holds that very commitment at that position,
  and the count is the position plus one. Meanwhile every issuer's list of leaves is only extended at
  its end, never shortened or reordered.
\<close>

theorem acknowledged_leaf_is_stored:
  assumes "hex_codec X" and "store_ok X d0" and "(system_step X k E R)\<^sup>*\<^sup>* (started d0 capacity) s"
    and "(r, (tg, b), Some (leaf_answer pos leaf_total)) \<in> set (sys_answered s)"
    and "routed tg = Handler (AddLeaf p)" and "path_param E p = Inr name" and "leaf_body E b = Inr h"
    and "parse_fr_hex X h = Inr f" and "(system_step X k E R)\<^sup>*\<^sup>* s s'"
  shows "leaf_total = pos + 1 \<and> pos < length (abs_leaves X (sys_db s') name) \<and> abs_leaves X (sys_db s') name ! pos = f \<and>
    (\<exists>new. abs_leaves X (sys_db s') i = abs_leaves X (sys_db s) i @ new)"
proof -
  have "leaf_request X E tg b = Some (name, f)" by (simp add: leaf_request_def assms(5-8))
  moreover have "leaf_stored X E (sys_db s) tg b (Some (leaf_answer pos leaf_total))"
    using started_reaches [OF assms(1-3)] assms(4) unfolding system_inv_def answers_ok_def by blast
  moreover note leaf_stored_append [OF this leaves_only_appended [OF assms(1-3,9)]]
  ultimately have "pos < length (abs_leaves X (sys_db s') name) \<and> abs_leaves X (sys_db s') name ! pos = f \<and>
      leaf_total = pos + 1"
    unfolding leaf_stored_def by blast
  with leaves_only_appended [OF assms(1-3,9)] show ?thesis by blast
qed

theorem acknowledged_leaf_is_stored_witness:
  "\<exists>s. (system_step ideal_externs ideal_keys plain_framework quiet)\<^sup>*\<^sup>* (started fresh_database 2) s \<and>
     (\<exists>r b. (r, (post ''gov'' ''leaves'', b), Some (leaf_answer 0 1)) \<in> set (sys_answered s)) \<and>
     abs_leaves ideal_externs (sys_db s) ''gov'' ! 0 = 5"
proof -
  obtain s where s: "(system_step ideal_externs ideal_keys plain_framework quiet)\<^sup>*\<^sup>* (started fresh_database 2) s"
      "(0, (post ''gov'' ''leaves'', std_hex_encode (fr_be 5)), Some (leaf_answer 0 1)) \<in> set (sys_answered s)"
    using one_leaf_system by blast
  have "parse_fr_hex ideal_externs (std_hex_encode (fr_be 5)) = Inr 5" using ideal_hex.parse_fr_hex_be [of 5] by simp
  from acknowledged_leaf_is_stored [OF ideal_hex.hex_codec_axioms store_ok_empty s gov_routes(1) _ _ this rtranclp.rtrancl_refl] s show ?thesis
    by (auto simp: plain_framework_sel)
qed

text \<open>
  C21: Every proof the server hands out is good, however the requests interleave and fail: when a
  proving request was answered with 200, the request's secret parses, its commitment was in the
  issuer's tree in some earlier state \<open>u\<close>, the root of that tree was the issuer's published root in
  some earlier state \<open>v\<close>, and the answer carries the encoding of a proof that the verifier accepted
  under the server's key for that root, the secret's nullifier and the request's address, and states
  that root and nullifier.
\<close>

theorem answered_proofs_verify:
  assumes "hex_codec X" and "store_ok X d0" and "(system_step X k E R)\<^sup>*\<^sup>* (started d0 capacity) s"
    and "(r, (tg, b), Some (json_response 200 content)) \<in> set (sys_answered s)" and "routed tg = Handler (Prove p)"
  shows "\<exists>name req secret u v ls pf resp. path_param E p = Inr name \<and> prove_body E b = Inr req \<and>
    parse_fr_hex X (req_secret req) = Inr secret \<and>
    (system_step X k E R)\<^sup>*\<^sup>* (started d0 capacity) u \<and> (system_step X k E R)\<^sup>*\<^sup>* u s \<and>
    (system_step X k E R)\<^sup>*\<^sup>* (started d0 capacity) v \<and> (system_step X k E R)\<^sup>*\<^sup>* v s \<and>
    ls = abs_leaves X (sys_db u) name \<and> leaf_commitment secret \<in> set ls \<and>
    abs_published X (sys_db v) name = Some (root_of ls) \<and>
    groth_verify X (vk k) [root_of ls, nullifier secret, address_field X (req_holder_address req)] pf = Inr True \<and>
    content = prove_json resp \<and>
    pr_proof resp = \<lparr> pj_a = hex_encode X (g1_bytes (proof_a pf)), pj_b = hex_encode X (g2_bytes (proof_b pf)),
      pj_c = hex_encode X (g1_bytes (proof_c pf)) \<rparr> \<and>
    pr_root resp = hex_encode X (fr_be (root_of ls)) \<and> pr_nullifier resp = hex_encode X (fr_be (nullifier secret))"
proof -
  let ?D = "sys_db ` states_before (system_step X k E R) (started d0 capacity) s"
  obtain name req resp where "path_param E p = Inr name" "prove_body E b = Inr req" "proof_for X k ?D name req resp"
      "content = prove_json resp"
    using proper_answer_200 [OF proper_response_prove [OF answered_proper [OF assms(1-4)] assms(5)]] by (elim exE conjE)
  then show ?thesis unfolding proof_for_def states_before_def by blast
qed

theorem answered_proofs_verify_witness:
  "\<exists>d s req. (system_step ideal_externs ideal_keys plain_framework quiet)\<^sup>*\<^sup>* (started d 2) s \<and>
     (\<exists>r b content. (r, (post ''gov'' ''prove'', b), Some (json_response 200 content)) \<in> set (sys_answered s) \<and>
        prove_body plain_framework b = Inr req) \<and>
     (\<exists>secret. parse_fr_hex ideal_externs (req_secret req) = Inr secret)"
proof -
  let ?b = "std_hex_encode (fr_be 5)"
  obtain d resp c where d: "store_ok ideal_externs d"
    "run (holder_prove ideal_externs ideal_keys 0 ''gov'' member_request) (connected [] d) = (Inr resp, c)"
    using member_served by blast
  let ?s = "started d 2 :: string system"
  let ?s' = "?s\<lparr> sys_db := db c, sys_answered := [(0, (post ''gov'' ''prove'', ?b), Some (json_response 200 (prove_json resp)))] \<rparr>"
  have "run_on conn_exec (respond_to ideal_externs ideal_keys plain_framework (sys_limiter ?s) (post ''gov'' ''prove'') ?b 0)
      (connected [] (sys_db ?s)) = (Some (json_response 200 (prove_json resp)), c)"
    using d(2) by (simp add: run_def respond_to_serve serve_def route_layer_def limit_concurrent_proofs_def unmetered_def extract_call_def
        plain_framework_sel handle_def run_finish respond_def started_def new_limiter_def)
  from request_alone [OF _ _ _ _ _ _ this, of 0 quiet]
  have run: "(system_step ideal_externs ideal_keys plain_framework quiet)\<^sup>*\<^sup>* ?s ?s'"
    by (simp add: started_def new_limiter_def known_ids_def request_ids_def used_ids_def)
  have mem: "(0, (post ''gov'' ''prove'', ?b), Some (json_response 200 (prove_json resp))) \<in> set (sys_answered ?s')" by simp
  from answered_proofs_verify [OF ideal_hex.hex_codec_axioms d(1) run mem gov_routes(3)] run mem show ?thesis by blast
qed

text \<open>
  C26: No deadlock: in every reachable state in which a request or a proving task is unfinished, some
  step can be taken that is no new request and no signal, needs no failure of the database and no
  client to go away. This is so although a transaction keeps one of five connections, an insert
  waits for an open transaction with the same position, and a proving request waits for its task.
\<close>

theorem no_deadlock:
  assumes "hex_codec X" and "store_ok X d0" and "(system_step X k E R)\<^sup>*\<^sup>* (started d0 capacity) s"
    and "sys_requests s \<noteq> [] \<or> tasks (sys_limiter s) \<noteq> []"
  shows "\<exists>s'. system_step X k E \<lparr> dropping = False, failing = False, on_unix = on_unix R \<rparr> s s' \<and>
    request_ids s' \<subseteq> request_ids s \<and> sys_signals s' = sys_signals s"
  using progress [OF started_reaches [OF assms(1-3)]] assms(4) unfolding idle_def advances_def by blast

lemma health_arrives:
  "\<exists>s. (system_step ideal_externs ideal_keys plain_framework quiet)\<^sup>*\<^sup>* (started fresh_database 2) s \<and>
     request_ids s = {0} \<and> sys_accepting s"
proof -
  let ?s = "arrived ideal_externs ideal_keys plain_framework 0 (Get, [''health'']) [] (0 :: nat) (started fresh_database 2)"
  have "system_step ideal_externs ideal_keys plain_framework quiet (started fresh_database 2) ?s"
    by (rule system_step.arrive)
      (simp_all add: started_def new_limiter_def known_ids_def request_ids_def used_ids_def)
  then have "(system_step ideal_externs ideal_keys plain_framework quiet)\<^sup>*\<^sup>* (started fresh_database 2) ?s"
    by (rule r_into_rtranclp)
  moreover have "request_ids ?s = {0}" "sys_accepting ?s"
    by (simp_all add: arrived_def started_def request_ids_def)
  ultimately show ?thesis by blast
qed

theorem no_deadlock_witness:
  "\<exists>s s'. (system_step ideal_externs ideal_keys plain_framework quiet)\<^sup>*\<^sup>* (started fresh_database 2) s \<and>
     request_ids s = {0} \<and> system_step ideal_externs ideal_keys plain_framework quiet s s' \<and>
     request_ids s' \<subseteq> {0}"
proof -
  obtain s where s: "(system_step ideal_externs ideal_keys plain_framework quiet)\<^sup>*\<^sup>* (started fresh_database 2) s"
      "request_ids s = {0}"
    using health_arrives by blast
  then have "sys_requests s \<noteq> [] \<or> tasks (sys_limiter s) \<noteq> []" by (auto simp: request_ids_def)
  from no_deadlock [OF ideal_hex.hex_codec_axioms store_ok_empty s(1) this] s show ?thesis by auto
qed

text \<open>
  C27: A shutdown drains the server: once the signal has resolved, every run ends, whatever fails and
  whoever goes away; a state that allows no further step has no request and no proving task left,
  every permit free and the tables consistent; and if no client goes away, every request that was in
  progress has been answered. On Unix both signals resolve it, elsewhere Ctrl-C does.
\<close>

theorem shutdown_drains:
  assumes "hex_codec X" and "store_ok X d0" and "(system_step X k E R)\<^sup>*\<^sup>* (started d0 capacity) s0"
    and "s = signalled R sig s0" and "sig = CtrlC \<or> on_unix R"
  shows "(\<nexists>f. f 0 = s \<and> (\<forall>n. system_step X k E R (f n) (f (Suc n)))) \<and>
    (\<forall>s'. (system_step X k E R)\<^sup>*\<^sup>* s s' \<and> stopped X k E R s' \<longrightarrow>
       sys_requests s' = [] \<and> tasks (sys_limiter s') = [] \<and> available (sys_limiter s') = capacity \<and>
       store_ok X (sys_db s') \<and>
       (dropping R \<or> request_ids s0 \<subseteq> fst ` set (sys_answered s')))"
proof -
  have closed: "\<not> sys_accepting s"
    using assms(5) unfolding assms(4) by (cases sig) (auto simp: signalled_def shutdown_signal_def)
  have inv0: "system_inv X E capacity s0" by (rule started_reaches [OF assms(1-3)])
  have inv: "system_inv X E capacity s"
    using inv0 by (simp add: assms(4) system_inv_def linked_def answers_ok_def signalled_def request_ids_def
        store_view_def Let_def)
  have "sys_requests s' = [] \<and> tasks (sys_limiter s') = [] \<and> available (sys_limiter s') = capacity \<and>
      store_ok X (sys_db s') \<and> (dropping R \<or> request_ids s0 \<subseteq> fst ` set (sys_answered s'))"
    if s': "(system_step X k E R)\<^sup>*\<^sup>* s s'" "stopped X k E R s'" for s'
  proof -
    have inv': "system_inv X E capacity s'" by (rule hex_codec.system_inv_reachable [OF assms(1) s'(1) inv])
    have "request_ids s0 = request_ids s" by (simp add: assms(4) signalled_def request_ids_def Let_def)
    with requests_answered [OF s'(1)] stopped_drained [OF inv' s'(2)] inv' show ?thesis
      by (auto simp: idle_def system_inv_def server_inv_def store_view_def request_ids_def)
  qed
  with draining_ends [OF closed, of X k E R] show ?thesis by blast
qed

theorem shutdown_drains_witness:
  "\<exists>s0 s'. request_ids s0 = {0} \<and>
     (system_step ideal_externs ideal_keys plain_framework quiet)\<^sup>*\<^sup>* (signalled quiet Sigterm s0) s' \<and>
     sys_requests s' = [] \<and> 0 \<in> fst ` set (sys_answered s')"
proof -
  obtain s0 where s0: "(system_step ideal_externs ideal_keys plain_framework quiet)\<^sup>*\<^sup>* (started fresh_database 2) s0"
      "request_ids s0 = {0}"
    using health_arrives by blast
  have "\<not> sys_accepting (signalled quiet Sigterm s0)" by (simp add: signalled_def shutdown_signal_def Let_def)
  then obtain s' where s': "(system_step ideal_externs ideal_keys plain_framework quiet)\<^sup>*\<^sup>* (signalled quiet Sigterm s0) s'"
      "stopped ideal_externs ideal_keys plain_framework quiet s'"
    using stops by blast
  from shutdown_drains [OF ideal_hex.hex_codec_axioms store_ok_empty s0(1) refl, of Sigterm] s' s0(2)
  have "sys_requests s' = [] \<and> 0 \<in> fst ` set (sys_answered s')" by auto
  with s' s0(2) show ?thesis by blast
qed

text \<open>
  C28: Publications can overtake each other: from every consistent state with a nonempty tree that
  has room there is a run with no failure in which, while a publication (request 0) is under way, a
  leaf is added (request 1) and published (request 2); all three succeed, each publication answering
  its own root, and the root that stays recorded is the older one, without the acknowledged leaf.
\<close>

theorem publication_overtaken:
  assumes "hex_codec X" and "0 < capacity" and "store_ok X d" and "abs_leaves X d i = ls" and "ls \<noteq> []"
    and "length ls < CAPACITY" and "routed ta = Handler (AddLeaf p)" and "routed tp = Handler (Publish p)"
    and "path_param E p = Inr i" and "leaf_body E b = Inr h" and "parse_fr_hex X h = Inr f"
  shows "\<exists>s. (system_step X k E R)\<^sup>*\<^sup>* (started d capacity) s \<and> sys_requests s = [] \<and>
    sys_answered s =
      [(1, (ta, b), Some (leaf_answer (length ls) (length ls + 1))),
       (2, (tp, b), Some (publish_answer X (ls @ [f]))),
       (0, (tp, b), Some (publish_answer X ls))] \<and>
    abs_leaves X (sys_db s) i = ls @ [f] \<and> abs_published X (sys_db s) i = Some (root_of ls)"
  by (rule hex_codec.overtaken_publication [OF assms])

theorem publication_overtaken_witness:
  "\<exists>d s. (system_step ideal_externs ideal_keys plain_framework quiet)\<^sup>*\<^sup>* (started d 2) s \<and>
     abs_leaves ideal_externs (sys_db s) ''gov'' = [5, 7] \<and> abs_published ideal_externs (sys_db s) ''gov'' = Some (root_of [5])"
proof -
  obtain d where d: "store_ok ideal_externs d" "abs_leaves ideal_externs d ''gov'' = [5]"
    using one_leaf_database by blast
  have "parse_fr_hex ideal_externs (std_hex_encode (fr_be 7)) = Inr 7" using ideal_hex.parse_fr_hex_be [of 7] by simp
  from publication_overtaken [OF ideal_hex.hex_codec_axioms _ d _ _ gov_routes(1,2) _ _ this, of 2 plain_framework
      "std_hex_encode (fr_be 7)" ideal_keys quiet]
  show ?thesis by (auto simp: plain_framework_sel CAPACITY_16)
qed

section \<open>The proof budget\<close>

text \<open>
  C29: The budget: in every reachable state free permits and requests in flight add up to the
  capacity, so no permit is ever lost or duplicated, even when clients go away; a proving request is
  refused at once, with status 503 and \<open>Retry-After\<close>, exactly when the capacity is in flight; so is
  then a request with any other method on the proving path, which passes the same layer before it can
  get its 405; and while no client goes away at most as many proving tasks run as the capacity allows.
\<close>

theorem running_proofs_bounded:
  assumes "(system_step X k E R)\<^sup>*\<^sup>* (started d0 capacity) s" and "routed tg = Handler (Prove p)"
  shows "available (sys_limiter s) + length (in_flight (sys_limiter s)) = capacity \<and>
    respond_to X k E (sys_limiter s) tg b rng =
      (if length (in_flight (sys_limiter s)) = capacity then Return (Some busy_response)
       else unmetered X k E (Prove p) b rng) \<and>
    (status busy_response = 503 \<and> retry_after busy_response = Some ''5'') \<and>
    (\<forall>tg'. metered tg' \<longrightarrow> length (in_flight (sys_limiter s)) = capacity \<longrightarrow>
       respond_to X k E (sys_limiter s) tg' b rng = Return (Some (head_only E tg' busy_response))) \<and>
    (dropping R \<or> length (tasks (sys_limiter s)) \<le> capacity)"
proof -
  have "sys_limiter (started d0 capacity) = new_limiter capacity" by (simp add: started_def)
  note view = limiter_view [OF assms(1) linked_started, unfolded this]
  have "available (sys_limiter s) + length (in_flight (sys_limiter s)) = capacity"
    using view by (simp add: permits_ok_def)
  moreover have "length (tasks (sys_limiter s)) \<le> capacity" if "\<not> dropping R"
    using view that limiter_reachable_ok tasks_within_flight by blast
  moreover have "respond_to X k E (sys_limiter s) tg' b rng = Return (Some (head_only E tg' busy_response))"
    if "metered tg'" "available (sys_limiter s) = 0" for tg'
    by (rule refused_when_spent [OF that(2,1)])
  ultimately show ?thesis
    by (auto simp: respond_to_serve assms(2) serve_def route_layer_def limit_concurrent_proofs_def busy_response_def)
qed

lemma spent_budget:
  "\<exists>s. (system_step ideal_externs ideal_keys plain_framework quiet)\<^sup>*\<^sup>* (started fresh_database 1) s \<and>
     request_ids s = {7} \<and> length (in_flight (sys_limiter s)) = 1 \<and> sys_accepting s \<and> sys_answered s = [] \<and>
     8 \<notin> known_ids s \<and> filter in_transaction (sys_requests s) = []"
proof -
  let ?s = "arrived ideal_externs ideal_keys plain_framework 7 (post ''gov'' ''prove'') [] (0 :: nat) (started fresh_database 1)"
  have "system_step ideal_externs ideal_keys plain_framework quiet (started fresh_database 1) ?s"
    by (rule system_step.arrive)
      (simp_all add: started_def new_limiter_def known_ids_def request_ids_def used_ids_def)
  then have "(system_step ideal_externs ideal_keys plain_framework quiet)\<^sup>*\<^sup>* (started fresh_database 1) ?s"
    by (rule r_into_rtranclp)
  moreover have "request_ids ?s = {7}" "length (in_flight (sys_limiter ?s)) = 1" "sys_accepting ?s" "sys_answered ?s = []"
      "8 \<notin> known_ids ?s" "filter in_transaction (sys_requests ?s) = []"
    by (simp_all add: arrived_def started_def request_ids_def known_ids_def used_ids_def try_acquire_def
        new_limiter_def in_transaction_def metered_iff)
  ultimately show ?thesis by blast
qed

theorem running_proofs_bounded_witness:
  "\<exists>s. (system_step ideal_externs ideal_keys plain_framework quiet)\<^sup>*\<^sup>* (started fresh_database 1) s \<and>
     request_ids s = {7} \<and>
     respond_to ideal_externs ideal_keys plain_framework (sys_limiter s) (post ''gov'' ''prove'') [] (0 :: nat) =
       Return (Some busy_response)"
proof -
  obtain s where s: "(system_step ideal_externs ideal_keys plain_framework quiet)\<^sup>*\<^sup>* (started fresh_database 1) s"
      "request_ids s = {7}" "length (in_flight (sys_limiter s)) = 1"
    using spent_budget by blast
  with running_proofs_bounded [OF s(1) gov_routes(3), of "[]" "0 :: nat"] show ?thesis by metis
qed

text \<open>
  C30: Only the proving path is metered: in every reachable state in which the server accepts requests
  and a connection is free, however many proofs run or wait and even when the budget is spent, a
  request on another path that does not add a leaf, with a name that Postgres takes as a text, can be
  served to its end while no other request moves and no permit changes hands; without failures its
  response is the framework's where no handler runs, has the status of an extractor's rejection, or is
  a handler's with status 200, 400, 404 or 409.
\<close>

theorem other_routes_not_starved:
  fixes X :: "('pk, 'rng, 'z) externs_scheme" and rng :: 'rng
  assumes "hex_codec X" and "store_ok X d0" and "(system_step X k E R)\<^sup>*\<^sup>* (started d0 capacity) s"
    and "sys_accepting s" and "r \<notin> known_ids s"
    and "length (filter in_transaction (sys_requests s)) < MAX_CONNECTIONS"
    and "\<not> metered tg" and "\<And>p. routed tg \<noteq> Handler (AddLeaf p)"
    and "\<forall>e call. routed tg = Handler e \<longrightarrow> extract_call E e b rng = Inr call \<longrightarrow> acceptable_call call"
    and "\<And>r. status (without_body E r) = status r"
  shows "\<exists>s' resp. (system_step X k E R)\<^sup>*\<^sup>* s s' \<and> sys_answered s' = sys_answered s @ [(r, (tg, b), Some resp)] \<and>
    sys_requests s' = sys_requests s \<and> sys_limiter s' = sys_limiter s \<and>
    (case routed tg of
       Handler e \<Rightarrow>
         (case extract_call E e b rng of
            Inl code \<Rightarrow> status resp = code
          | Inr call \<Rightarrow> status resp \<in> {200, 400, 404, 409})
     | MethodNotAllowed e \<Rightarrow> resp = head_only E tg (unmatched E cors tg)
     | NoRoute \<Rightarrow> resp = unmatched E cors tg
     | Preflight \<Rightarrow> resp = preflight E cors tg)"
proof -
  have light: "light tg" using assms(7,8) by (simp add: light_def)
  have ok: "store_ok X (sys_db s)"
    using started_reaches [OF assms(1-3)] by (simp add: system_inv_def server_inv_def store_view_def)
  obtain a c where run: "run_on conn_exec (respond_to X k E (sys_limiter s) tg b rng) (connected [] (sys_db s)) = (a, c)"
    by (rule prod.exhaust)
  have conn: "conn_ok X (connected [] (sys_db s))" "conn_calm (connected [] (sys_db s))"
    using ok by (simp_all add: connected_def conn_ok_def conn_calm_def)
  have free: "connection_free (sys_requests s)" using assms(6) by (simp add: connection_free_def)
  have other: "\<not> (\<exists>p. e = Prove p)" if "routed tg = Handler e \<or> routed tg = MethodNotAllowed e" for e
    using assms(7) that by (auto simp: metered_iff)
  have calm: "\<not> is_proving call" if "routed tg = Handler e" "extract_call E e b rng = Inr call" for e call
    using extract_call_not_prove [OF that(2)] other [of e] that(1) by blast
  note answered = hex_codec.respond_to_answered [OF assms(1) conn(1) assms(10) run]
  have "\<exists>resp. a = Some resp \<and> (case routed tg of
       Handler e \<Rightarrow>
         (case extract_call E e b rng of
            Inl code \<Rightarrow> status resp = code
          | Inr call \<Rightarrow> status resp \<in> {200, 400, 404, 409})
     | MethodNotAllowed e \<Rightarrow> resp = head_only E tg (unmatched E cors tg)
     | NoRoute \<Rightarrow> resp = unmatched E cors tg
     | Preflight \<Rightarrow> resp = preflight E cors tg)"
  proof (cases "routed tg")
    case (Handler e)
    with answered conn(2) other [of e] calm [of e] show ?thesis by (cases "extract_call E e b rng") auto
  qed (use answered other in auto)
  then obtain resp where "a = Some resp" "case routed tg of
       Handler e \<Rightarrow>
         (case extract_call E e b rng of
            Inl code \<Rightarrow> status resp = code
          | Inr call \<Rightarrow> status resp \<in> {200, 400, 404, 409})
     | MethodNotAllowed e \<Rightarrow> resp = head_only E tg (unmatched E cors tg)
     | NoRoute \<Rightarrow> resp = unmatched E cors tg
     | Preflight \<Rightarrow> resp = preflight E cors tg"
    by blast
  with light_request_served [OF assms(4,5) free light run, of R] show ?thesis
    by (intro exI [of _ "s\<lparr> sys_db := db c, sys_answered := sys_answered s @ [(r, (tg, b), a)] \<rparr>"] exI [of _ resp]) simp
qed

lemma health_routed: "routed (Get, [''health'']) = Handler Health"
  by (simp add: routed_def route_def on_get_def)

theorem other_routes_not_starved_witness:
  "\<exists>s s' resp. (system_step ideal_externs ideal_keys plain_framework quiet)\<^sup>*\<^sup>* (started fresh_database 1) s \<and>
     request_ids s = {7} \<and> length (in_flight (sys_limiter s)) = 1 \<and>
     (system_step ideal_externs ideal_keys plain_framework quiet)\<^sup>*\<^sup>* s s' \<and>
     sys_answered s' = [(8, ((Get, [''health'']), []), Some resp)] \<and> status resp \<noteq> 503"
proof -
  obtain s where s: "(system_step ideal_externs ideal_keys plain_framework quiet)\<^sup>*\<^sup>* (started fresh_database 1) s"
      "request_ids s = {7}" "length (in_flight (sys_limiter s)) = 1" "sys_accepting s" "sys_answered s = []"
      "8 \<notin> known_ids s" "filter in_transaction (sys_requests s) = []"
    using spent_budget by blast
  note tg = health_routed
  have free: "length (filter in_transaction (sys_requests s)) < MAX_CONNECTIONS" by (simp add: s(7) MAX_CONNECTIONS_def)
  have other: "\<not> metered (Get, [''health''])" "routed (Get, [''health'']) \<noteq> Handler (AddLeaf p)" for p
    by (simp_all add: tg metered_iff)
  have named: "\<forall>e call. routed (Get, [''health'']) = Handler e \<longrightarrow>
      extract_call plain_framework e [] (0 :: nat) = Inr call \<longrightarrow> acceptable_call call"
    using tg by (auto simp: extract_call_def acceptable_call_def)
  obtain s' resp where s': "(system_step ideal_externs ideal_keys plain_framework quiet)\<^sup>*\<^sup>* s s'"
      "sys_answered s' = [(8, ((Get, [''health'']), []), Some resp)]" "status resp \<in> {200, 400, 404, 409}"
    using other_routes_not_starved [where tg = "(Get, [''health''])" and b = "[]" and rng = "0 :: nat",
        OF ideal_hex.hex_codec_axioms store_ok_empty s(1,4,6) free other named plain_framework_sel(4)]
    by (auto simp: s(5) tg extract_call_def)
  then have "status resp \<noteq> 503" by auto
  with s(1-3) s'(1,2) show ?thesis by blast
qed

text \<open>
  C31: With clients that go away the budget does not bound the work: dropping a request gives its
  permit back while its proving task stays spawned. For an issuer whose leaves are published, anyone
  who knows its name can, with any 32-byte hex string as the secret, bring the server to a state with
  any number of proving tasks spawned and unfinished (the runtime runs as many of them at once as it
  has blocking threads, the others are queued), every permit free and no request in progress.
\<close>

theorem dropped_requests_exceed_budget:
  assumes "0 < capacity" and "dropping R" and "store_ok X d"
    and "abs_leaves X d i \<noteq> []" and "abs_published X d i = Some (root_of (abs_leaves X d i))"
    and "routed tg = Handler (Prove p)" and "path_param E p = Inr i" and "prove_body E b = Inr req"
    and "parse_fr_hex X (req_secret req) = Inr secret"
  shows "\<exists>s. (system_step X k E R)\<^sup>*\<^sup>* (started d capacity) s \<and> sys_requests s = [] \<and>
    length (tasks (sys_limiter s)) = n \<and> available (sys_limiter s) = capacity"
proof (intro exI conjI)
  show "(system_step X k E R)\<^sup>*\<^sup>* (started d capacity)
      ((started d capacity)\<lparr> sys_limiter := (new_limiter capacity)\<lparr> tasks := [0..<n] \<rparr> \<rparr>)"
    by (rule dropped_proofs) (use assms in \<open>simp_all add: published_now_def\<close>)
qed (simp_all add: started_def new_limiter_def)

theorem dropped_requests_exceed_budget_witness:
  "\<exists>d s. (system_step ideal_externs ideal_keys plain_framework (quiet\<lparr> dropping := True \<rparr>))\<^sup>*\<^sup>*
       (started d DEFAULT_MAX_CONCURRENT_PROOFS) s \<and> length (tasks (sys_limiter s)) = 100"
proof -
  obtain d where "store_ok ideal_externs d" "abs_leaves ideal_externs d ''gov'' = [leaf_commitment 5]"
      "abs_published ideal_externs d ''gov'' = Some (root_of [leaf_commitment 5])"
    using published_database by blast
  then have d: "store_ok ideal_externs d" "abs_leaves ideal_externs d ''gov'' \<noteq> []"
      "abs_published ideal_externs d ''gov'' = Some (root_of (abs_leaves ideal_externs d ''gov''))"
    by simp_all
  have p: "parse_fr_hex ideal_externs (req_secret member_request) = Inr 5" using ideal_hex.parse_fr_hex_be [of 5] by simp
  have "0 < DEFAULT_MAX_CONCURRENT_PROOFS" "dropping (quiet\<lparr> dropping := True \<rparr>)"
    by (simp_all add: DEFAULT_MAX_CONCURRENT_PROOFS_def)
  from dropped_requests_exceed_budget [OF this d gov_routes(3), of plain_framework "std_hex_encode (fr_be 5)" member_request 5
      ideal_keys 100] p
  show ?thesis by (auto simp: plain_framework_sel)
qed

text \<open>
  C32: The budget read from the environment is a positive \<open>usize\<close> whatever the variable holds:
  unset, blank, zero, signed, overflowing or not a number it is 2; surrounding white space is
  ignored.
\<close>

theorem prove_capacity_spec:
  "0 < prove_capacity env \<and> prove_capacity env < 2 ^ 64 \<and>
   prove_capacity (env(ENV_MAX_CONCURRENT_PROOFS := None)) = 2 \<and>
   prove_capacity (env(ENV_MAX_CONCURRENT_PROOFS := Some ''0'')) = 2 \<and>
   prove_capacity (env(ENV_MAX_CONCURRENT_PROOFS := Some ''-3'')) = 2 \<and>
   prove_capacity (env(ENV_MAX_CONCURRENT_PROOFS := Some ''18446744073709551616'')) = 2 \<and>
   prove_capacity (env(ENV_MAX_CONCURRENT_PROOFS := Some '' 12 '')) = 12"
proof -
  have "0 < prove_capacity env \<and> prove_capacity env < 2 ^ 64"
    using parse_usize_less
    by (auto simp: prove_capacity_def DEFAULT_MAX_CONCURRENT_PROOFS_def bind_eq_Some_conv split: option.splits)
  moreover have "parse_usize (trim ''0'') = Some 0" "parse_usize (trim ''-3'') = None"
    "parse_usize (trim ''18446744073709551616'') = None" "parse_usize (trim '' 12 '') = Some 12"
    by (simp_all add: trim_eval parse_usize_eval)
  ultimately show ?thesis by (simp add: prove_capacity_def DEFAULT_MAX_CONCURRENT_PROOFS_def)
qed

section \<open>Errors\<close>

text \<open>
  C33: What every answer of the running server is, in every state it reaches, however requests
  interleave and whether or not the database fails. No request ends in a panic. A preflight request and
  an unknown path get the framework's response, a method that the path does not take gets the 405 or,
  on the proving path, which is metered for every method, the busy response; a request on the proving
  path may be busy, one that an extractor rejects has the rejection's status, and all others have a
  handler's: 200, 400, 404 or 409, or a server error, 500 (or 503, the health probe's). A server error
  has one of four reasons: the database fails; the request is to prove; its issuer's name is a text that
  Postgres refuses; or it adds a leaf and the response reports the violated constraint, as happens when
  another addition takes the position. A request whose program has ended holds no transaction. The
  framework is assumed to keep the status when it takes the body of a response to \<open>HEAD\<close> away.
\<close>

theorem every_request_answered:
  assumes "hex_codec X" and "store_ok X d0" and "\<And>r. status (without_body E r) = status r"
    and "(system_step X k E R)\<^sup>*\<^sup>* (started d0 capacity) s"
  shows "(\<forall>(r, (tg, b), a) \<in> set (sys_answered s). \<exists>resp. a = Some resp \<and>
      (case routed tg of
         Handler e \<Rightarrow>
           metered tg \<and> resp = busy_response \<or>
           (case extract_call E e b () of
              Inl code \<Rightarrow> status resp = code
            | Inr call \<Rightarrow>
                status resp \<in> {200, 400, 404, 409} \<or>
                (status resp = 500 \<or> status resp = 503 \<and> e = Health) \<and>
                (failing R \<or> is_proving call \<or> \<not> acceptable_call call \<or>
                 (\<exists>p. e = AddLeaf p) \<and>
                   body resp = Some (JObject [(''error'', JString (''database error: '' @ violation d0))])))
       | MethodNotAllowed e \<Rightarrow>
           resp = head_only E tg (unmatched E cors tg) \<or> metered tg \<and> resp = head_only E tg busy_response
       | NoRoute \<Rightarrow> resp = unmatched E cors tg
       | Preflight \<Rightarrow> resp = preflight E cors tg)) \<and>
    (\<forall>(r, tag, p, t) \<in> set (sys_requests s). (\<exists>a. p = Return a) \<longrightarrow> t = None)"
proof (intro conjI ballI; clarify)
  fix r m path b a
  assume a: "(r, ((m, path), b), a) \<in> set (sys_answered s)"
  let ?tg = "(m, path)"
  note proper = answered_proper [OF assms(1,2,4) a]
  show "\<exists>resp. a = Some resp \<and>
      (case routed ?tg of
         Handler e \<Rightarrow>
           metered ?tg \<and> resp = busy_response \<or>
           (case extract_call E e b () of
              Inl code \<Rightarrow> status resp = code
            | Inr call \<Rightarrow>
                status resp \<in> {200, 400, 404, 409} \<or>
                (status resp = 500 \<or> status resp = 503 \<and> e = Health) \<and>
                (failing R \<or> is_proving call \<or> \<not> acceptable_call call \<or>
                 (\<exists>p. e = AddLeaf p) \<and>
                   body resp = Some (JObject [(''error'', JString (''database error: '' @ violation d0))])))
       | MethodNotAllowed e \<Rightarrow>
           resp = head_only E ?tg (unmatched E cors ?tg) \<or> metered ?tg \<and> resp = head_only E ?tg busy_response
       | NoRoute \<Rightarrow> resp = unmatched E cors ?tg
       | Preflight \<Rightarrow> resp = preflight E cors ?tg)"
  proof (cases "routed ?tg")
    case (Handler e)
    then obtain a0 where "proper_answer X k (sys_db ` states_before (system_step X k E R) (started d0 capacity) s) E e b a0"
        "a = map_option (head_only E ?tg) a0"
      using proper by (auto simp: proper_response_def)
    from proper_handler [OF this Handler assms(3)] obtain resp where resp: "a = Some resp"
        "metered ?tg \<and> resp = busy_response \<or>
         (case extract_call E e b () of Inl code \<Rightarrow> status resp = code | Inr call \<Rightarrow> handler_status e (status resp))"
      by blast
    note reason = server_error_reason [OF assms(1,2,4) a [unfolded resp(1)] assms(3) Handler]
    show ?thesis
      using resp reason Handler by (cases "extract_call E e b ()") (auto simp: handler_status_def)
  qed (use proper in \<open>auto simp: proper_response_def\<close>)
next
  fix r tg b t a
  assume "(r, (tg, b), Return a, t) \<in> set (sys_requests s)"
  from ended_program_closed [OF started_reaches [OF assms(1,2,4)] this] show "t = None" .
qed

lemma health_answered:
  "\<exists>s resp. (system_step ideal_externs ideal_keys plain_framework quiet)\<^sup>*\<^sup>* (started fresh_database 1) s \<and>
     (0, ((Get, [''health'']), []), Some resp) \<in> set (sys_answered s)"
proof -
  let ?s = "started fresh_database 1 :: string system" and ?tg = "(Get, [''health''])"
  obtain a c where run: "run_on conn_exec (respond_to ideal_externs ideal_keys plain_framework (sys_limiter ?s) ?tg [] (0 :: nat))
      (connected [] (sys_db ?s)) = (a, c)"
    by (rule prod.exhaust)
  have "conn_ok ideal_externs (connected [] (sys_db ?s))"
    using ideal_hex.connected_ok [OF store_ok_empty] by (simp add: started_def)
  from hex_codec.respond_to_answered [OF ideal_hex.hex_codec_axioms this plain_framework_sel(4) run] obtain resp where "a = Some resp"
    by blast
  moreover have "(system_step ideal_externs ideal_keys plain_framework quiet)\<^sup>*\<^sup>* ?s
      (?s\<lparr> sys_db := db c, sys_answered := sys_answered ?s @ [(0, (?tg, []), a)] \<rparr>)"
    by (rule request_alone [OF _ _ _ _ _ _ run])
      (simp_all add: started_def new_limiter_def known_ids_def request_ids_def used_ids_def)
  ultimately show ?thesis by fastforce
qed

theorem every_request_answered_witness:
  "\<exists>s resp. (system_step ideal_externs ideal_keys plain_framework quiet)\<^sup>*\<^sup>* (started fresh_database 1) s \<and>
     (0, ((Get, [''health'']), []), Some resp) \<in> set (sys_answered s) \<and> status resp \<in> {200, 400, 404, 409}"
proof -
  obtain s resp where s: "(system_step ideal_externs ideal_keys plain_framework quiet)\<^sup>*\<^sup>* (started fresh_database 1) s"
      "(0, ((Get, [''health'']), []), Some resp) \<in> set (sys_answered s)"
    using health_answered by blast
  have "\<not> metered (Get, [''health''])" "extract_call plain_framework Health [] () = Inr CallHealth"
    by (simp_all add: metered_iff health_routed extract_call_def)
  then have "status resp \<in> {200, 400, 404, 409}"
    using every_request_answered [OF ideal_hex.hex_codec_axioms store_ok_empty plain_framework_sel(4) s(1), THEN conjunct1,
        THEN bspec, OF s(2)]
    by (simp add: health_routed acceptable_call_def is_proving_def)
  with s show ?thesis by blast
qed

text \<open>
  C34: What a failure tells the client: the body of every 500 is the error text, and that text is the
  database driver's own, unless the call was to prove and the proof failed. In particular a refused
  first statement puts the driver's text into the body unchanged.
\<close>

theorem failures_reach_client:
  assumes "hex_codec X" and "store_ok X d"
    and "run (handle X k c) (connected fs d) = (Some resp, s)" and "status resp = 500"
  shows "(\<exists>t. body resp = Some (JObject [(''error'', JString t)]) \<and>
      ((\<exists>u. t = ''database error: '' @ u) \<or>
       is_proving c \<and> (t = ''proof generation failed'' \<or> t = ''the proving task failed: '' @ join_error_text X))) \<and>
    fst (run (handle X k (CallPublish i)) (connected (Refused u # fs') d')) =
      Some (json_response 500 (JObject [(''error'', JString (''database error: '' @ u))]))"
proof -
  have "\<exists>t. body resp = Some (JObject [(''error'', JString t)]) \<and> internal_text X (is_proving c) t"
    using hex_codec.handle_answered [OF assms(1) _ assms(3) [unfolded run_def]] assms(2,4)
    by (simp add: connected_def conn_ok_def conn_calm_def)
  moreover have "fst (run (handle X k (CallPublish i)) (connected (Refused u # fs') d')) =
      Some (json_response 500 (JObject [(''error'', JString (''database error: '' @ u))]))"
    by (simp add: run_def handle_def run_finish publish_def run_store_call stored_leaves_def query_def
        conn_exec_def exec_def sql_eval_def connected_def next_fault_def respond_def into_response_def
        api_error_from_store_def)
  ultimately show ?thesis unfolding internal_text_def by blast
qed

theorem failures_reach_client_witness:
  "\<exists>resp s. run (handle ideal_externs \<lparr> pk = (), vk = ideal_vk \<rparr> (CallPublish ''gov''))
      (connected [Refused ''host db:5432 unreachable''] fresh_database) = (Some resp, s) \<and> status resp = 500 \<and>
     (\<exists>u. body resp = Some (JObject [(''error'', JString (''database error: '' @ u))]))"
proof -
  let ?run = "run (handle ideal_externs \<lparr> pk = (), vk = ideal_vk \<rparr> (CallPublish ''gov''))
      (connected [Refused ''host db:5432 unreachable''] fresh_database)"
  have "fst ?run = Some (json_response 500 (JObject [(''error'', JString (''database error: '' @ ''host db:5432 unreachable''))]))"
    by (simp add: run_def handle_def run_finish publish_def run_store_call stored_leaves_def query_def
        conn_exec_def exec_def sql_eval_def connected_def next_fault_def respond_def into_response_def
        api_error_from_store_def)
  then obtain resp s where run: "?run = (Some resp, s)" "status resp = 500"
    by (cases ?run) (auto simp: json_response_def)
  have "\<not> is_proving (CallPublish ''gov'' :: nat call)" by (simp add: is_proving_def)
  with failures_reach_client [OF ideal_hex.hex_codec_axioms store_ok_empty run, THEN conjunct1]
  have "\<exists>u. body resp = Some (JObject [(''error'', JString (''database error: '' @ u))])" by blast
  with run show ?thesis by blast
qed

section \<open>Keys, configuration and command line\<close>

text \<open>
  C35: Saving keys: after a save that succeeded, loading from the same directory returns the same
  proving and verifying key. Saving is not atomic: over existing keys, a save that fails at its
  second file reports the error and leaves a directory that loads as the new proving key with the
  old verifying key.
\<close>

theorem saved_keys_load:
  assumes "key_serialization X" and "\<forall>p. \<not> unreadable fs p" and "\<forall>p. write_fault fs p = None"
    and "save_keys X k0 dir fs = (r, fs1)"
    and "fs2 = fs1\<lparr> write_fault := (\<lambda>p. None)(path_join dir ''vk.bin'' \<mapsto> files fs1 (path_join dir ''vk.bin'')) \<rparr>"
  shows "r = Inr () \<and> load_keys X dir fs1 = Inr k0 \<and>
    (\<exists>fs3. save_keys X k dir fs2 = (Inl Io, fs3) \<and> load_keys X dir fs3 = Inr \<lparr> pk = pk k, vk = vk k0 \<rparr>)"
proof -
  have r: "r = Inr ()"
    using assms(3,4) by (auto simp: save_keys_def fs_create_dir_all_def fs_write_def)
  note saved = assms(4) [unfolded r]
  have "path_join dir ''vk.bin'' \<noteq> dir" by (rule path_join_longer) simp
  from interrupted_save [OF assms(1) saved assms(2,3,5) this] save_load [OF assms(1) saved assms(2)] r
  show ?thesis by blast
qed

definition empty_files :: file_system where
  "empty_files = \<lparr> files = (\<lambda>p. None), unreadable = (\<lambda>p. False), write_fault = (\<lambda>p. None) \<rparr>"

lemma saved_ok: "\<exists>fs'. save_keys X k dir empty_files = (Inr (), fs')"
  by (simp add: save_keys_def fs_create_dir_all_def fs_write_def empty_files_def)

lemma empty_files_sel [simp]: "unreadable empty_files p = False" "write_fault empty_files p = None"
  by (simp_all add: empty_files_def)

theorem saved_keys_load_witness:
  "\<exists>fs1 fs2 fs3. load_keys ideal_externs ''keys'' fs1 = Inr \<lparr> pk = (), vk = ideal_vk \<rparr> \<and>
     save_keys ideal_externs \<lparr> pk = (), vk = ideal_vk\<lparr> gamma_abc_g1 := [] \<rparr> \<rparr> ''keys'' fs2 = (Inl Io, fs3) \<and>
     load_keys ideal_externs ''keys'' fs3 = Inr \<lparr> pk = (), vk = ideal_vk \<rparr>"
proof -
  obtain fs1 where fs1: "save_keys ideal_externs \<lparr> pk = (), vk = ideal_vk \<rparr> ''keys'' empty_files = (Inr (), fs1)"
    using saved_ok by blast
  have faults: "\<forall>p. \<not> unreadable empty_files p" "\<forall>p. write_fault empty_files p = None" by simp_all
  from saved_keys_load [OF ideal_key_serialization faults fs1 refl,
      of "\<lparr> pk = (), vk = ideal_vk\<lparr> gamma_abc_g1 := [] \<rparr> \<rparr>"]
  show ?thesis by auto
qed

text \<open>
  C36: The pin is exact: where the keys load without a pin, setting one gives the malformed-pin error
  unless it is 64 hex digits, the same keys exactly when it is the hex form, in any case, of the
  digest of their verifying key, and otherwise the mismatch that reports the actual digest.
\<close>

theorem pin_is_exact:
  assumes "hex_codec X" and "\<And>bs. length (sha256 X bs) = 32"
    and "load_from_env X (env(ENV_VK_SHA256 := None)) http fs = Inr k"
    and "env_opt env ENV_VK_SHA256 = Some expected"
  shows "load_from_env X env http fs =
    (if length expected \<noteq> 64 \<or> \<not> list_all is_hex_digit expected then Inl BadDigest
     else if hex_decode X expected = Some (vk_digest X k) then Inr k
     else Inl (VkMismatch (to_ascii_lowercase expected) (hex_encode X (vk_digest X k))))"
proof -
  have "load_from_env X env http fs = try_r (verify_digest X k expected) (\<lambda>_. Inr k)"
    by (rule load_then_pin [OF assms(3,4)])
  then show ?thesis
    using hex_codec.verify_digest_ok [OF assms(1,2), of k expected]
    by (auto simp: verify_digest_def Let_def)
qed

theorem pin_is_exact_witness:
  "load_from_env ideal_externs ((\<lambda>n. None)(ENV_VK_SHA256 \<mapsto> ''abc'')) (\<lambda>u. NoResponse []) empty_files = Inl BadDigest"
proof -
  let ?env = "(\<lambda>n. None)(ENV_VK_SHA256 \<mapsto> ''abc'')"
  have sha: "\<And>bs. length (sha256 ideal_externs bs) = 32" by simp
  have "load_from_env ideal_externs (?env(ENV_VK_SHA256 := None)) (\<lambda>u. NoResponse []) empty_files = Inr (dev_keys ideal_externs)"
    by (simp add: load_from_env_def env_opt_def)
  moreover have "env_opt ?env ENV_VK_SHA256 = Some ''abc''" by (simp add: env_opt_def trim_eval)
  ultimately show ?thesis
    using pin_is_exact [OF ideal_hex.hex_codec_axioms sha, of ?env "\<lambda>u. NoResponse []" empty_files _ "''abc''"]
    by simp
qed

text \<open>
  C37: A pinned server never works with other keys: if the server comes to listen while the pin is
  set, the pin decodes to the digest of the very verifying key it serves with, wherever the keys came
  from, and every proof it hands out from then on, however requests interleave and fail, is the
  encoding of one that verifies under that key, for the root and the nullifier that the answer states.
\<close>

theorem pinned_server_serves_pinned_keys:
  assumes "hex_codec X" and "\<And>bs. length (sha256 X bs) = 32"
    and "boot X env http fs parse_addr open_pool run_migrations listen = Inr l"
    and "env_opt env ENV_VK_SHA256 = Some expected"
    and "store_ok X (li_store l)" and "(system_step X (li_keys l) E R)\<^sup>*\<^sup>* (serving l) s"
  shows "hex_decode X expected = Some (vk_digest X (li_keys l)) \<and>
    (\<forall>r tg p b content. (r, (tg, b), Some (json_response 200 content)) \<in> set (sys_answered s) \<longrightarrow>
       routed tg = Handler (Prove p) \<longrightarrow>
       (\<exists>req root null pf resp. prove_body E b = Inr req \<and> content = prove_json resp \<and>
          groth_verify X (vk (li_keys l)) [root, null, address_field X (req_holder_address req)] pf = Inr True \<and>
          pr_proof resp = \<lparr> pj_a = hex_encode X (g1_bytes (proof_a pf)), pj_b = hex_encode X (g2_bytes (proof_b pf)),
            pj_c = hex_encode X (g1_bytes (proof_c pf)) \<rparr> \<and>
          pr_root resp = hex_encode X (fr_be root) \<and> pr_nullifier resp = hex_encode X (fr_be null)))"
proof (intro conjI allI impI)
  show "hex_decode X expected = Some (vk_digest X (li_keys l))"
    using hex_codec.load_pinned [OF assms(1) _ assms(4,2)] boot_keys [OF assms(3)] by blast
next
  fix r tg p b content
  assume a: "(r, (tg, b), Some (json_response 200 content)) \<in> set (sys_answered s)" "routed tg = Handler (Prove p)"
  note answered_proper [OF assms(1,5) assms(6) [unfolded serving_def] a(1)]
  from proper_answer_200 [OF proper_response_prove [OF this a(2)]]
  show "\<exists>req root null pf resp. prove_body E b = Inr req \<and> content = prove_json resp \<and>
      groth_verify X (vk (li_keys l)) [root, null, address_field X (req_holder_address req)] pf = Inr True \<and>
      pr_proof resp = \<lparr> pj_a = hex_encode X (g1_bytes (proof_a pf)), pj_b = hex_encode X (g2_bytes (proof_b pf)),
        pj_c = hex_encode X (g1_bytes (proof_c pf)) \<rparr> \<and>
      pr_root resp = hex_encode X (fr_be root) \<and> pr_nullifier resp = hex_encode X (fr_be null)"
    unfolding proof_for_def by blast
qed

theorem pinned_server_serves_pinned_keys_witness:
  "\<exists>env l. boot ideal_externs env (\<lambda>u. NoResponse []) empty_files (\<lambda>a. Inr a) (\<lambda>u. Inr ()) (\<lambda>p. Inr fresh_database) (\<lambda>a. Inr ()) = Inr l \<and>
     env_opt env ENV_VK_SHA256 = Some (std_hex_encode (vk_digest ideal_externs (li_keys l)))"
proof -
  let ?pin = "hex_encode ideal_externs (vk_digest ideal_externs (dev_keys ideal_externs))"
  let ?env = "(\<lambda>n. None)(''DATABASE_URL'' := Some ''db'', ENV_VK_SHA256 := Some ?pin)"
  have sha: "\<And>bs. length (sha256 ideal_externs bs) = 32" by simp
  have pin: "env_opt ?env ENV_VK_SHA256 = Some ?pin"
  proof (rule trim_idem_hex [where v = ?pin])
    show "\<forall>c \<in> set ?pin. is_hex_digit c"
      using ideal_hex.decode_Some_iff [of ?pin] ideal_hex.decode_encode by blast
    have "length ?pin = 64" unfolding ideal_hex.length_encode vk_digest_def sha by simp
    then show "?pin \<noteq> []" by force
  qed (simp only: fun_upd_same)
  have none: "env_opt ?env ENV_KEYS_URL = None" "env_opt ?env ENV_KEYS_DIR = None"
    by (simp_all add: env_opt_def ENV_KEYS_URL_def ENV_KEYS_DIR_def ENV_VK_SHA256_def)
  have "load_from_env ideal_externs ?env (\<lambda>u. NoResponse []) empty_files = Inr (dev_keys ideal_externs)"
    using ideal_hex.printed_pin_accepted [OF sha] by (simp add: load_from_env_def none pin del: ideal_externs_sel)
  then have "\<exists>l. boot ideal_externs ?env (\<lambda>u. NoResponse []) empty_files (\<lambda>a. Inr a) (\<lambda>u. Inr ()) (\<lambda>p. Inr fresh_database) (\<lambda>a. Inr ()) = Inr l"
    by (simp add: boot_def store_connect_def ENV_VK_SHA256_def default_budget ENV_MAX_CONCURRENT_PROOFS_def)
  then obtain l where l: "boot ideal_externs ?env (\<lambda>u. NoResponse []) empty_files (\<lambda>a. Inr a) (\<lambda>u. Inr ()) (\<lambda>p. Inr fresh_database) (\<lambda>a. Inr ()) = Inr l"
    by blast
  have d: "li_store l = fresh_database"
    using l by (auto simp: boot_def store_connect_def result_iffs)
  have "store_ok ideal_externs (li_store l)" unfolding d by (rule store_ok_empty)
  from pinned_server_serves_pinned_keys [OF ideal_hex.hex_codec_axioms sha l pin this rtranclp.rtrancl_refl, THEN conjunct1]
  have "vk_digest ideal_externs (li_keys l) = vk_digest ideal_externs (dev_keys ideal_externs)"
    using ideal_hex.decode_encode by simp
  with l pin show ?thesis by (metis ideal_externs_sel(1))
qed

text \<open>
  C38: Where the keys come from: a blank variable is an unset variable. The keys load exactly when the
  configured source provides them and they meet the pin, if there is one: with a URL (whatever the
  directory variable says) both files were answered with a success status at that URL, its trailing
  slashes removed, and read back as these keys; with only a directory the two files in it did; with
  neither they are the development keys, which are therefore never a fallback for a source that
  fails. A failure is the configured source's own: a fetch error names an address under the URL, a
  file or decoding error comes only with a URL or a directory, a digest error only with a pin. What
  the other sources hold has no influence.
\<close>

theorem key_source_precedence:
  assumes "trim blank = []" and "trim source \<noteq> []"
  shows "load_from_env X (env(n \<mapsto> blank)) http fs = load_from_env X (env(n := None)) http fs \<and>
    (load_from_env X env http fs = Inr k \<longleftrightarrow>
       (case (env_opt env ENV_KEYS_URL, env_opt env ENV_KEYS_DIR) of
          (Some url, _) \<Rightarrow>
            (\<exists>p v. served_at http (key_url url ''pk.bin'') p \<and> served_at http (key_url url ''vk.bin'') v \<and>
              stands_for X p v k)
        | (None, Some dir) \<Rightarrow>
            (\<exists>p v. readable_at fs (path_join dir ''pk.bin'') p \<and> readable_at fs (path_join dir ''vk.bin'') v \<and>
              stands_for X p v k)
        | (None, None) \<Rightarrow> k = dev_keys X) \<and>
       (case env_opt env ENV_VK_SHA256 of None \<Rightarrow> True | Some expected \<Rightarrow> verify_digest X k expected = Inr ())) \<and>
    (case load_from_env X env http fs of
       Inr _ \<Rightarrow> True
     | Inl (Fetch address text) \<Rightarrow>
         (\<exists>url. env_opt env ENV_KEYS_URL = Some url \<and> address \<in> key_url url ` {''pk.bin'', ''vk.bin''})
     | Inl (Status address code) \<Rightarrow>
         (\<exists>url. env_opt env ENV_KEYS_URL = Some url \<and> address \<in> key_url url ` {''pk.bin'', ''vk.bin''}) \<and>
         \<not> (200 \<le> code \<and> code \<le> 299)
     | Inl (KeyIo io) \<Rightarrow> env_opt env ENV_KEYS_URL \<noteq> None \<or> env_opt env ENV_KEYS_DIR \<noteq> None
     | Inl _ \<Rightarrow> env_opt env ENV_VK_SHA256 \<noteq> None) \<and>
    load_from_env X (env(ENV_KEYS_URL \<mapsto> source, ENV_KEYS_DIR := dir)) http fs =
      load_from_env X (env(ENV_KEYS_URL \<mapsto> source, ENV_KEYS_DIR := dir')) http fs' \<and>
    load_from_env X (env(ENV_KEYS_URL \<mapsto> blank, ENV_KEYS_DIR \<mapsto> source)) http fs =
      load_from_env X (env(ENV_KEYS_URL := None, ENV_KEYS_DIR \<mapsto> source)) http' fs \<and>
    load_from_env X (env(ENV_KEYS_URL \<mapsto> blank, ENV_KEYS_DIR \<mapsto> blank, ENV_VK_SHA256 \<mapsto> blank)) http fs =
      Inr (dev_keys X)"
proof (intro conjI)
  have blank: "env_opt (env(m \<mapsto> blank)) = env_opt (env(m := None))" for env :: environment and m
    using assms(1) by (auto simp: env_opt_def)
  have names: "ENV_KEYS_URL \<noteq> ENV_KEYS_DIR" "ENV_KEYS_URL \<noteq> ENV_VK_SHA256" "ENV_KEYS_DIR \<noteq> ENV_VK_SHA256"
    by (simp_all add: ENV_KEYS_URL_def ENV_KEYS_DIR_def ENV_VK_SHA256_def)
  note other = load_from_env_def env_opt_def assms names names [symmetric]
  show "load_from_env X (env(n \<mapsto> blank)) http fs = load_from_env X (env(n := None)) http fs"
    by (simp add: load_from_env_def blank)
  show "load_from_env X env http fs = Inr k \<longleftrightarrow>
       (case (env_opt env ENV_KEYS_URL, env_opt env ENV_KEYS_DIR) of
          (Some url, _) \<Rightarrow>
            (\<exists>p v. served_at http (key_url url ''pk.bin'') p \<and> served_at http (key_url url ''vk.bin'') v \<and>
              stands_for X p v k)
        | (None, Some dir) \<Rightarrow>
            (\<exists>p v. readable_at fs (path_join dir ''pk.bin'') p \<and> readable_at fs (path_join dir ''vk.bin'') v \<and>
              stands_for X p v k)
        | (None, None) \<Rightarrow> k = dev_keys X) \<and>
       (case env_opt env ENV_VK_SHA256 of None \<Rightarrow> True | Some expected \<Rightarrow> verify_digest X k expected = Inr ())"
    by (rule load_from_env_ok [unfolded provided_def])
  show "case load_from_env X env http fs of
       Inr _ \<Rightarrow> True
     | Inl (Fetch address text) \<Rightarrow>
         (\<exists>url. env_opt env ENV_KEYS_URL = Some url \<and> address \<in> key_url url ` {''pk.bin'', ''vk.bin''})
     | Inl (Status address code) \<Rightarrow>
         (\<exists>url. env_opt env ENV_KEYS_URL = Some url \<and> address \<in> key_url url ` {''pk.bin'', ''vk.bin''}) \<and>
         \<not> (200 \<le> code \<and> code \<le> 299)
     | Inl (KeyIo io) \<Rightarrow> env_opt env ENV_KEYS_URL \<noteq> None \<or> env_opt env ENV_KEYS_DIR \<noteq> None
     | Inl _ \<Rightarrow> env_opt env ENV_VK_SHA256 \<noteq> None"
    using load_from_env_error [of X env http fs]
    by (cases "load_from_env X env http fs") (simp, fastforce split: key_source_error.splits)
  show "load_from_env X (env(ENV_KEYS_URL \<mapsto> source, ENV_KEYS_DIR := dir)) http fs =
      load_from_env X (env(ENV_KEYS_URL \<mapsto> source, ENV_KEYS_DIR := dir')) http fs'"
    by (simp add: other)
  show "load_from_env X (env(ENV_KEYS_URL \<mapsto> blank, ENV_KEYS_DIR \<mapsto> source)) http fs =
      load_from_env X (env(ENV_KEYS_URL := None, ENV_KEYS_DIR \<mapsto> source)) http' fs"
    by (simp add: other)
  show "load_from_env X (env(ENV_KEYS_URL \<mapsto> blank, ENV_KEYS_DIR \<mapsto> blank, ENV_VK_SHA256 \<mapsto> blank)) http fs =
      Inr (dev_keys X)"
    by (simp add: other)
qed

text \<open>
  A host that answers every request with one verifying key serves that key, and a host that is not
  found yields no keys at all.
\<close>

theorem key_source_precedence_witness:
  "load_from_env ideal_externs ((\<lambda>n. None)(ENV_KEYS_URL \<mapsto> ''k'')) (\<lambda>u. Response 200 (Inr (vk_ser ideal_vk))) empty_files =
     Inr \<lparr> pk = (), vk = ideal_vk \<rparr> \<and>
   load_from_env ideal_externs ((\<lambda>n. None)(ENV_KEYS_URL \<mapsto> ''k'')) (\<lambda>u. NoResponse []) empty_files \<noteq>
     Inr (dev_keys ideal_externs)"
proof -
  let ?env = "(\<lambda>n. None)(ENV_KEYS_URL \<mapsto> ''k'')"
  have blank: "trim '' '' = []" "trim ''k'' \<noteq> []" by (simp_all add: trim_eval)
  have env: "env_opt ?env ENV_KEYS_URL = Some ''k''" "env_opt ?env ENV_VK_SHA256 = None"
    by (simp_all add: env_opt_def trim_eval ENV_KEYS_URL_def ENV_VK_SHA256_def)
  note source = key_source_precedence [OF blank, of ideal_externs ?env, THEN conjunct2, THEN conjunct1]
  show ?thesis
    unfolding source
    by (auto simp: env served_at_def stands_for_def vk_deser_ser)
qed

text \<open>
  C39: The commitment tool agrees with the server: for the hex form of a secret it prints that secret
  and a commitment that the server parses as the very leaf it looks for when that secret proves.
\<close>

theorem commit_agrees_with_server:
  assumes "hex_codec X"
  shows "\<exists>h. commit_main X os_secret [hex_encode X (fr_be secret)] =
      Inr [''secret     = '' @ hex_encode X (fr_be secret), ''commitment = '' @ h] \<and>
    parse_fr_hex X h = Inr (leaf_commitment secret)"
  using hex_codec.commit_round_trip [OF assms] hex_codec.parse_fr_hex_be [OF assms] by blast

theorem commit_agrees_with_server_witness:
  "\<exists>h. commit_main ideal_externs 0 [std_hex_encode (fr_be 5)] =
      Inr [''secret     = '' @ std_hex_encode (fr_be 5), ''commitment = '' @ h]"
  using commit_agrees_with_server [OF ideal_hex.hex_codec_axioms, of 0 5] by auto

text \<open>
  C40: What \<open>veilproof-vk\<close> prints for keys that \<open>veilproof-keygen\<close> wrote is what the latter printed,
  followed by a digest that the server accepts as the pin for those keys.
\<close>

theorem keygen_vk_server_agree:
  assumes "hex_codec X" and "key_serialization X" and "\<And>bs. length (sha256 X bs) = 32"
    and "keygen_main X os_rng (dir # args) fs = (Inr out, fs')" and "\<forall>p. \<not> unreadable fs p"
  shows "\<exists>pin k. vk_main X [dir] fs' = Inr (out @
      [[], ''# Set this so the server checks its own setup at boot:'', ''VEILPROOF_VK_SHA256='' @ pin]) \<and>
    load_keys X dir fs' = Inr k \<and> verify_digest X k pin = Inr ()"
proof -
  have "save_keys X (generate_secure X os_rng) dir fs = (Inr (), fs')"
    using assms(4) by (auto simp: keygen_main_def Let_def split: prod.splits sum.splits)
  with hex_codec.keygen_then_vk [OF assms(1,2,4,5)] hex_codec.printed_pin_accepted [OF assms(1,3)]
    save_load [OF assms(2) _ assms(5)]
  show ?thesis by blast
qed

theorem keygen_vk_server_agree_witness:
  "\<exists>out fs' pin. keygen_main ideal_externs 3 [''keys''] empty_files = (Inr out, fs') \<and>
     vk_main ideal_externs [''keys''] fs' = Inr (out @
       [[], ''# Set this so the server checks its own setup at boot:'', ''VEILPROOF_VK_SHA256='' @ pin])"
proof -
  obtain fs' where "save_keys ideal_externs (generate_secure ideal_externs 3) ''keys'' empty_files = (Inr (), fs')"
    using saved_ok by blast
  then have k: "keygen_main ideal_externs 3 (''keys'' # []) empty_files =
      (Inr (vk_lines ideal_externs (encoded_vk (generate_secure ideal_externs 3))), fs')"
    by (simp add: keygen_main_def Let_def)
  have sha: "\<And>bs. length (sha256 ideal_externs bs) = 32" by simp
  from keygen_vk_server_agree [OF ideal_hex.hex_codec_axioms ideal_key_serialization sha k] k
  show ?thesis by auto
qed

end
